theory Spec2Isabelle
  imports Complex_Main
begin

section \<open>Values, errors and numpy primitives\<close>

text \<open>
  The module \<^verbatim>\<open>cluster_utils_PANGEO.py\<close> works on numpy arrays. A float64 element is
  either a finite number, modelled by a real, or not-a-number. Exceptions are values of
  a sum type, \<open>Inl\<close> carrying the exception.
\<close>

datatype error = IndexError | ValueError | AssertionError | NameError string

datatype float64 = NaN | Fin real

fun isnan :: "float64 \<Rightarrow> bool" where
  "isnan NaN = True"
| "isnan (Fin x) = False"

text \<open>
  \<^verbatim>\<open>arr_r[inds] = 0\<close> with \<^verbatim>\<open>inds = np.isnan(arr_r)\<close>: the element is zero where it
  was missing and itself elsewhere. Afterwards no element is missing, so the filled
  element is read as a real.
\<close>

fun filled :: "float64 \<Rightarrow> real" where
  "filled NaN = 0"
| "filled (Fin x) = x"

text \<open>An index into an axis of length \<open>n\<close>: negative indices count from the end.\<close>

definition py_index :: "nat \<Rightarrow> int \<Rightarrow> error + nat" where
  "py_index n i =
     (if 0 \<le> i \<and> i < int n then Inr (nat i)
      else if - int n \<le> i \<and> i < 0 then Inr (nat (int n + i))
      else Inl IndexError)"

text \<open>\<^verbatim>\<open>dest[idx] = vals\<close> for an integer index array: assignments in order.\<close>

fun scatter :: "int list \<Rightarrow> (int \<times> int) list \<Rightarrow> error + int list" where
  "scatter dest [] = Inr dest"
| "scatter dest ((i, v) # ivs) =
     (case py_index (length dest) i of
        Inl e \<Rightarrow> Inl e
      | Inr j \<Rightarrow> scatter (dest[j := v]) ivs)"

text \<open>\<^verbatim>\<open>src[idx]\<close> for an integer index array.\<close>

fun gather :: "int list \<Rightarrow> int list \<Rightarrow> error + int list" where
  "gather src [] = Inr []"
| "gather src (i # is) =
     (case py_index (length src) i of
        Inl e \<Rightarrow> Inl e
      | Inr j \<Rightarrow> (case gather src is of
                   Inl e \<Rightarrow> Inl e
                 | Inr r \<Rightarrow> Inr (src ! j # r)))"

text \<open>
  \<^verbatim>\<open>np.argsort\<close>: the indices that sort the keys ascending. numpy leaves the order of
  equal keys open; the insertion sort used here keeps them in input order, and the
  results below use it on keys without ties only.
\<close>

definition argsort :: "real list \<Rightarrow> int list" where
  "argsort xs = map (\<lambda>p. int (snd p)) (sort_key fst (zip xs [0..<length xs]))"

section \<open>LabelAligner: reorder and temp\_sort\<close>

text \<open>
  A ClassAssignment is held as the list of its elements: \<^verbatim>\<open>reorder\<close> works element
  by element, whatever the shape. The labels are whole numbers (the source keeps them in
  a float array, \<^verbatim>\<open>inds_r\<close> being built by \<^verbatim>\<open>np.zeros\<close>).

  \<^verbatim>\<open>inds_r = np.zeros(np.shape(inds)); inds_r[inds] = np.arange(0, np.size(inds))\<close>
  \<^verbatim>\<open>out = inds_r[arr.astype('int')]; out[arr == -1] = -1\<close>
\<close>

definition reorder :: "int list \<Rightarrow> int list \<Rightarrow> error + int list" where
  "reorder data_classes inds =
     (case scatter (replicate (length inds) 0) (zip inds (map int [0..<length inds])) of
        Inl e \<Rightarrow> Inl e
      | Inr inds_r \<Rightarrow>
          (case gather inds_r data_classes of
             Inl e \<Rightarrow> Inl e
           | Inr out \<Rightarrow> Inr (map2 (\<lambda>v a. if a = - 1 then - 1 else v) out data_classes)))"

record profile_summary =
  mean :: "real list"
  std :: "real list"

text \<open>\<^verbatim>\<open>top_mean = np.array([i['mean'][0] for i in avg])\<close>\<close>

fun top_mean :: "profile_summary list \<Rightarrow> error + real list" where
  "top_mean [] = Inr []"
| "top_mean (i # avg) =
     (case mean i of
        [] \<Rightarrow> Inl IndexError
      | m # _ \<Rightarrow> (case top_mean avg of Inl e \<Rightarrow> Inl e | Inr ms \<Rightarrow> Inr (m # ms)))"

definition temp_sort :: "int list \<Rightarrow> profile_summary list \<Rightarrow> bool \<Rightarrow> error + int list" where
  "temp_sort data_classes avg arg =
     (case top_mean avg of
        Inl e \<Rightarrow> Inl e
      | Inr tm \<Rightarrow>
          (let inds = argsort tm
           in if arg then Inr inds else reorder data_classes inds))"

text \<open>A permutation array of \<open>[0, K)\<close>, and a ClassAssignment over \<open>K\<close> classes.\<close>

definition is_permutation :: "int list \<Rightarrow> bool" where
  "is_permutation inds = (sort inds = map int [0..<length inds])"

definition labels_ok :: "nat \<Rightarrow> int list \<Rightarrow> bool" where
  "labels_ok K a = list_all (\<lambda>x. x = - 1 \<or> (0 \<le> x \<and> x < int K)) a"

section \<open>Arrays with named axes\<close>

text \<open>
  A three-axis array \<^verbatim>\<open>(time, n, core)\<close> with its sizes, the core axis last: \<^verbatim>\<open>lev\<close>
  for a ProfileArray, \<^verbatim>\<open>pca_comp\<close> for a ReducedArray, \<^verbatim>\<open>k\<close> for probabilities.
  A numpy array always has the shape it declares, which is \<open>well_shaped\<close>.
\<close>

text \<open>
  How \<^verbatim>\<open>func\<close> reaches the memory of the array it is applied to, which decides
  whether a write inside \<^verbatim>\<open>func\<close> is seen by the caller:
  \<^item> \<open>Reshape_view\<close>: a numpy-backed array whose memory layout lets
    \<^verbatim>\<open>np.reshape(arr, (-1, size))\<close> return a view (C order, core axis last);
  \<^item> \<open>Reshape_copy\<close>: a numpy-backed array for which \<^verbatim>\<open>np.reshape\<close> has to copy
    (Fortran order, a transposed buffer);
  \<^item> \<open>Dask_chunks\<close>: a dask-backed array, \<^verbatim>\<open>func\<close> being handed computed chunks.
\<close>

datatype buffer = Reshape_view | Reshape_copy | Dask_chunks

record 'a data_array =
  time_size :: nat
  n_size :: nat
  core_size :: nat
  vals :: "'a list list list"
  layout :: buffer

definition well_shaped :: "'a data_array \<Rightarrow> bool" where
  "well_shaped d =
     (length (vals d) = time_size d \<and>
      list_all (\<lambda>plane. length plane = n_size d \<and>
                  list_all (\<lambda>row. length row = core_size d) plane) (vals d))"

text \<open>\<^verbatim>\<open>np.reshape(arr, (-1, size))\<close>: the rows of the array in C order.\<close>

definition reshape_rows :: "'a list list list \<Rightarrow> 'a list list" where
  "reshape_rows arr = concat arr"

text \<open>\<^verbatim>\<open>np.reshape(out, out_sizes)\<close>: \<open>T * n\<close> rows back into \<open>T\<close> planes of \<open>n\<close>.\<close>

definition reshape_back :: "nat \<Rightarrow> nat \<Rightarrow> 'b list \<Rightarrow> 'b list list" where
  "reshape_back T n out = map (\<lambda>t. take n (drop (t * n) out)) [0..<T]"

text \<open>
  \<^verbatim>\<open>arr_r[inds] = 0\<close> writes into \<^verbatim>\<open>arr_r\<close>. Where \<^verbatim>\<open>arr_r\<close> is a view of the
  caller's array, the caller's array is zero-filled by the call; where
  \<^verbatim>\<open>np.reshape\<close> copied, or \<^verbatim>\<open>func\<close> works on a chunk, it is left as it was.
  \<open>input_after\<close> is the caller's array after the call.
\<close>

definition zero_filled :: "float64 data_array \<Rightarrow> float64 data_array" where
  "zero_filled d = d\<lparr>vals := map (map (map (\<lambda>x. Fin (filled x)))) (vals d)\<rparr>"

definition input_after :: "float64 data_array \<Rightarrow> float64 data_array" where
  "input_after d = (case layout d of Reshape_view \<Rightarrow> zero_filled d | _ \<Rightarrow> d)"

text \<open>
  The result of \<^verbatim>\<open>xr.apply_ufunc\<close> is dask-backed for a dask-backed input, and a
  fresh numpy array in C order otherwise.
\<close>

definition result_layout :: "'a data_array \<Rightarrow> buffer" where
  "result_layout d = (case layout d of Dask_chunks \<Rightarrow> Dask_chunks | _ \<Rightarrow> Reshape_view)"

section \<open>Reducer\<close>

text \<open>
  The fitted \<^verbatim>\<open>sklearn.decomposition.PCA\<close>: \<^verbatim>\<open>mean_\<close>, \<^verbatim>\<open>components_\<close> (one row per
  component) and \<^verbatim>\<open>n_components\<close>. Its \<^verbatim>\<open>transform\<close> is
  \<^verbatim>\<open>(X - mean_) @ components_.T\<close>, and raises on an empty batch or a wrong row length.
\<close>

record reducer_model =
  pca_mean :: "real list"
  pca_components :: "real list list"
  n_components :: nat

definition trained_reducer :: "reducer_model \<Rightarrow> bool" where
  "trained_reducer pca =
     (length (pca_components pca) = n_components pca \<and>
      n_components pca \<le> length (pca_mean pca) \<and>
      list_all (\<lambda>c. length c = length (pca_mean pca)) (pca_components pca))"

definition pca_project :: "reducer_model \<Rightarrow> real list \<Rightarrow> real list" where
  "pca_project pca x =
     map (\<lambda>c. sum_list (map2 (*) (map2 (-) x (pca_mean pca)) c)) (pca_components pca)"

definition sk_transform :: "reducer_model \<Rightarrow> real list list \<Rightarrow> error + real list list" where
  "sk_transform pca X =
     (if X = [] then Inl ValueError
      else if list_all (\<lambda>x. length x = length (pca_mean pca)) X
      then Inr (map (pca_project pca) X)
      else Inl ValueError)"

text \<open>
  \<^verbatim>\<open>pca_transform\<close>, with the body of its \<^verbatim>\<open>func\<close>. The result pairs the caller's
  input array as the call leaves it with the reduced array.
  \<^verbatim>\<open>
  arr_r = np.reshape(arr, (-1, lev_size))
  inds = np.isnan(arr_r)
  arr_r[inds] = 0
  out = pca.transform(arr_r)
  out[inds[..., 0:n_comp]] = np.nan
  out = np.reshape(out, np.shape(arr[..., 0:n_comp]))
  \<close>
\<close>

definition pca_transform ::
  "float64 data_array \<Rightarrow> reducer_model \<Rightarrow> error + (float64 data_array \<times> float64 data_array)" where
  "pca_transform data pca =
     (let lev_size = core_size data;
          n_comp = n_components pca
      in if lev_size = 0 then Inl ValueError
         else
           let arr_r = reshape_rows (vals data);
               inds = map (map isnan) arr_r
           in case sk_transform pca (map (map filled) arr_r) of
                Inl e \<Rightarrow> Inl e
              | Inr out \<Rightarrow>
                  if min n_comp lev_size \<noteq> n_comp then Inl IndexError
                  else
                    let out' = map2 (map2 (\<lambda>b v. if b then NaN else Fin v))
                                 (map (take n_comp) inds) out
                    in Inr (input_after data,
                            \<lparr>time_size = time_size data, n_size = n_size data,
                             core_size = n_comp,
                             vals = reshape_back (time_size data) (n_size data) out',
                             layout = result_layout data\<rparr>))"

section \<open>Classifier\<close>

text \<open>
  The fitted \<^verbatim>\<open>sklearn.mixture.GaussianMixture\<close>, taken through its three row-wise
  methods on complete rows and the row length it was fitted on. A trained model
  predicts a component index below \<open>K\<close> and a probability vector of length \<open>K\<close>.
\<close>

record classifier_model =
  gmm_n_components :: nat
  n_features_in :: nat
  predict :: "real list \<Rightarrow> nat"
  predict_proba :: "real list \<Rightarrow> real list"
  score_samples :: "real list \<Rightarrow> real"

definition trained_classifier :: "classifier_model \<Rightarrow> bool" where
  "trained_classifier gmm =
     (0 < gmm_n_components gmm \<and> 0 < n_features_in gmm \<and>
      (\<forall>x. predict gmm x < gmm_n_components gmm) \<and>
      (\<forall>x. length (predict_proba gmm x) = gmm_n_components gmm))"

definition sk_rows :: "classifier_model \<Rightarrow> (real list \<Rightarrow> 'b) \<Rightarrow> real list list \<Rightarrow> error + 'b list" where
  "sk_rows gmm f X =
     (if X = [] then Inl ValueError
      else if list_all (\<lambda>x. length x = n_features_in gmm) X
      then Inr (map f X)
      else Inl ValueError)"

text \<open>
  \<^verbatim>\<open>gmm_classify\<close>:
  \<^verbatim>\<open>
  arr_r = np.reshape(arr, (-1, pca_size))
  inds = np.isnan(arr_r)
  arr_r[inds] = 0
  out = gmm.predict(arr_r)
  out[inds[:, 0]] = -1
  out = np.reshape(out, np.shape(arr[..., 0]))
  \<close>
\<close>

definition gmm_classify ::
  "float64 data_array \<Rightarrow> classifier_model \<Rightarrow> error + (float64 data_array \<times> int list list)" where
  "gmm_classify data_trans gmm =
     (let pca_size = core_size data_trans
      in if pca_size = 0 then Inl ValueError
         else
           let arr_r = reshape_rows (vals data_trans);
               inds = map (map isnan) arr_r
           in case sk_rows gmm (predict gmm) (map (map filled) arr_r) of
                Inl e \<Rightarrow> Inl e
              | Inr out \<Rightarrow>
                  let out' = map2 (\<lambda>i v. if i ! 0 then - 1 else int v) inds out
                  in Inr (input_after data_trans,
                          reshape_back (time_size data_trans) (n_size data_trans) out'))"

text \<open>\<^verbatim>\<open>gmm_prob\<close>: as above with \<^verbatim>\<open>predict_proba\<close> and \<^verbatim>\<open>out[inds[:, 0]] = np.nan\<close>.\<close>

definition gmm_prob ::
  "float64 data_array \<Rightarrow> classifier_model \<Rightarrow> error + (float64 data_array \<times> float64 data_array)" where
  "gmm_prob data_trans gmm =
     (let pca_size = core_size data_trans;
          gmm_size = gmm_n_components gmm
      in if pca_size = 0 then Inl ValueError
         else
           let arr_r = reshape_rows (vals data_trans);
               inds = map (map isnan) arr_r
           in case sk_rows gmm (predict_proba gmm) (map (map filled) arr_r) of
                Inl e \<Rightarrow> Inl e
              | Inr out \<Rightarrow>
                  let out' = map2 (\<lambda>i v. if i ! 0 then map (\<lambda>_. NaN) v else map Fin v) inds out
                  in Inr (input_after data_trans,
                          \<lparr>time_size = time_size data_trans, n_size = n_size data_trans,
                           core_size = gmm_size,
                           vals = reshape_back (time_size data_trans) (n_size data_trans) out',
                           layout = result_layout data_trans\<rparr>))"

text \<open>\<^verbatim>\<open>gmm_score_samples\<close>: as above with \<^verbatim>\<open>score_samples\<close>, one number per row.\<close>

definition gmm_score_samples ::
  "float64 data_array \<Rightarrow> classifier_model \<Rightarrow> error + (float64 data_array \<times> float64 list list)" where
  "gmm_score_samples data_trans gmm =
     (let pca_size = core_size data_trans
      in if pca_size = 0 then Inl ValueError
         else
           let arr_r = reshape_rows (vals data_trans);
               inds = map (map isnan) arr_r
           in case sk_rows gmm (score_samples gmm) (map (map filled) arr_r) of
                Inl e \<Rightarrow> Inl e
              | Inr out \<Rightarrow>
                  let out' = map2 (\<lambda>i v. if i ! 0 then NaN else Fin v) inds out
                  in Inr (input_after data_trans,
                          reshape_back (time_size data_trans) (n_size data_trans) out'))"

text \<open>A row with a missing value, and a row that is missing at every level.\<close>

definition has_missing :: "float64 list \<Rightarrow> bool" where
  "has_missing row = list_ex isnan row"

definition fully_missing :: "float64 list \<Rightarrow> bool" where
  "fully_missing row = list_all isnan row"

section \<open>Sampler\<close>

text \<open>
  The generator \<^verbatim>\<open>rng\<close> is taken through the raw numbers it hands out: \<open>r k\<close> is the
  \<open>k\<close>-th raw number of one call. \<^verbatim>\<open>rng.choice(arr, N, replace=False)\<close> draws \<open>N\<close>
  row indices without replacement: each draw picks one of the indices still in the pool,
  which then leaves the pool. It raises when \<open>N\<close> exceeds the number of rows.
\<close>

fun draw_indices :: "nat list \<Rightarrow> nat \<Rightarrow> (nat \<Rightarrow> nat) \<Rightarrow> nat list" where
  "draw_indices pool 0 r = []"
| "draw_indices pool (Suc k) r =
     (if pool = [] then []
      else let j = r 0 mod length pool
           in pool ! j # draw_indices (take j pool @ drop (Suc j) pool) k (\<lambda>i. r (Suc i)))"

definition rng_choice :: "(nat \<Rightarrow> nat) \<Rightarrow> 'a list \<Rightarrow> nat \<Rightarrow> error + 'a list" where
  "rng_choice r arr N =
     (if length arr < N then Inl ValueError
      else Inr (map (\<lambda>i. arr ! i) (draw_indices [0..<length arr] N r)))"

text \<open>The first exception of a sequence of calls, or all the results.\<close>

fun collect :: "(error + 'a) list \<Rightarrow> error + 'a list" where
  "collect [] = Inr []"
| "collect (Inl e # rs) = Inl e"
| "collect (Inr x # rs) = (case collect rs of Inl e \<Rightarrow> Inl e | Inr xs \<Rightarrow> Inr (x # xs))"

text \<open>
  \<^verbatim>\<open>random_sample\<close>: \<^verbatim>\<open>func\<close> runs once per time slice (\<^verbatim>\<open>vectorize=True\<close>), giving
  axes \<^verbatim>\<open>(time, M, lev)\<close>; \<^verbatim>\<open>stack(N=('M', 'time'))\<close> then orders the samples by draw
  first and time second. \<open>g t\<close> holds the raw numbers the generator hands to the call
  for time slice \<open>t\<close>. With no time slice \<^verbatim>\<open>func\<close> is not called once, and
  \<^verbatim>\<open>np.vectorize\<close> raises, the signature having the new output axis \<^verbatim>\<open>M\<close>.
\<close>

definition random_sample ::
  "float64 data_array \<Rightarrow> nat \<Rightarrow> (nat \<Rightarrow> nat \<Rightarrow> nat) \<Rightarrow> error + float64 list list" where
  "random_sample data N g =
     (if time_size data = 0 then Inl ValueError
      else
        case collect (map (\<lambda>t. rng_choice (g t) (vals data ! t) N) [0..<time_size data]) of
          Inl e \<Rightarrow> Inl e
        | Inr result \<Rightarrow>
            Inr (concat (map (\<lambda>m. map (\<lambda>t. result ! t ! m) [0..<time_size data]) [0..<N])))"

text \<open>The number of valid (not fully missing) locations of one time slice.\<close>

definition valid_count :: "float64 list list \<Rightarrow> nat" where
  "valid_count plane = length (filter (\<lambda>row. \<not> fully_missing row) plane)"

section \<open>LabelAligner: match\_profiles\<close>

text \<open>
  The arithmetic of \<^verbatim>\<open>match_profiles\<close> is float64 arithmetic: every operation gives
  the exact result rounded to the nearest float64, ties to even. A float64 is held as
  the real it denotes, and \<open>2 ^ 1024\<close> and its negative stand for the two infinities,
  which is where a result too large for float64 goes. (No operation below takes the
  difference of two infinities or multiplies an infinity by zero.)

  \<open>ulp x\<close> is the spacing of the float64 numbers around \<open>x\<close>: \<open>2 ^ -1074\<close> in the
  subnormal range, and \<open>2 ^ (e - 52)\<close> for \<open>2 ^ e \<le> |x| < 2 ^ (e + 1)\<close>.
\<close>

definition rne :: "real \<Rightarrow> int" where
  "rne x =
     (let f = \<lfloor>x\<rfloor>; r = x - of_int f
      in if r < 1 / 2 then f else if 1 / 2 < r then f + 1 else if even f then f else f + 1)"

definition ulp :: "real \<Rightarrow> real" where
  "ulp x =
     (if \<bar>x\<bar> < 1 / 2 ^ 1022 then 1 / 2 ^ 1074
      else 2 powr of_int (\<lfloor>log 2 \<bar>x\<bar>\<rfloor> - 52))"

definition float64_round :: "real \<Rightarrow> real" where
  "float64_round x =
     (let y = ulp x * of_int (rne (x / ulp x))
      in if 2 ^ 1024 \<le> y then 2 ^ 1024
         else if y \<le> - (2 ^ 1024) then - (2 ^ 1024)
         else y)"

text \<open>
  \<^verbatim>\<open>avg0[i]['mean'] - avg1[j]['mean']\<close> on one-axis arrays: element by element, an array
  of length one being broadcast, and an exception for other unequal lengths.
\<close>

definition np_sub :: "real list \<Rightarrow> real list \<Rightarrow> error + real list" where
  "np_sub a b =
     (if length a = length b then Inr (map2 (\<lambda>x y. float64_round (x - y)) a b)
      else if length a = 1 then Inr (map (\<lambda>y. float64_round (a ! 0 - y)) b)
      else if length b = 1 then Inr (map (\<lambda>x. float64_round (x - b ! 0)) a)
      else Inl ValueError)"

text \<open>
  \<^verbatim>\<open>np.sum\<close> over a one-axis float64 array is numpy's pairwise summation, each
  addition rounded: fewer than eight elements are added in order; up to 128 elements
  are added into eight running sums, element \<open>i\<close> into sum \<open>i mod 8\<close>, the eight
  sums are then added pairwise and the elements left over beyond a multiple of eight
  are added last; a longer array is cut in two at a multiple of eight near its middle.
\<close>

definition fadd :: "real \<Rightarrow> real \<Rightarrow> real" where
  "fadd x y = float64_round (x + y)"

definition unrolled_sum :: "real list \<Rightarrow> real" where
  "unrolled_sum a =
     (let n = length a; m = n - n mod 8;
          r = map (\<lambda>j. foldl fadd (a ! j) (map (\<lambda>q. a ! (8 * q + j)) [1..<m div 8])) [0..<8];
          res = fadd (fadd (fadd (r ! 0) (r ! 1)) (fadd (r ! 2) (r ! 3)))
                     (fadd (fadd (r ! 4) (r ! 5)) (fadd (r ! 6) (r ! 7)))
      in foldl fadd res (drop m a))"

function pairwise_sum :: "real list \<Rightarrow> real" where
  "pairwise_sum a =
     (if length a < 8 then foldl fadd 0 a
      else if length a \<le> 128 then unrolled_sum a
      else let n2 = length a div 2 - (length a div 2) mod 8
           in fadd (pairwise_sum (take n2 a)) (pairwise_sum (drop n2 a)))"
  by pat_completeness auto
termination
  by (relation "measure length") (auto simp: Let_def)

definition np_sum :: "real list \<Rightarrow> real" where
  "np_sum xs = pairwise_sum xs"

text \<open>\<^verbatim>\<open>np.argmin\<close> along an axis: the first index of the least value; empty raises.\<close>

fun argmin_from :: "real list \<Rightarrow> nat \<Rightarrow> real \<Rightarrow> nat \<Rightarrow> nat" where
  "argmin_from [] i bv bi = bi"
| "argmin_from (x # xs) i bv bi =
     (if x < bv then argmin_from xs (Suc i) x i else argmin_from xs (Suc i) bv bi)"

definition np_argmin :: "real list \<Rightarrow> error + nat" where
  "np_argmin xs = (case xs of [] \<Rightarrow> Inl ValueError | x # rest \<Rightarrow> Inr (argmin_from rest 1 x 0))"

text \<open>
  One entry \<^verbatim>\<open>norms[i, j]\<close>:
  \<^verbatim>\<open>diff = avg0[i]['mean'] - avg1[j]['mean']; norms[i, j] = np.sum(diff * diff)\<close>,
  or \<^verbatim>\<open>dist(avg0[i], avg1[j])\<close> when a distance is supplied.
\<close>

definition norm_entry ::
  "(profile_summary \<Rightarrow> profile_summary \<Rightarrow> real) option \<Rightarrow> profile_summary \<Rightarrow> profile_summary
     \<Rightarrow> error + real" where
  "norm_entry dist_f a b =
     (case dist_f of
        None \<Rightarrow> (case np_sub (mean a) (mean b) of
                   Inl e \<Rightarrow> Inl e
                 | Inr diff \<Rightarrow> Inr (np_sum (map (\<lambda>d. float64_round (d * d)) diff)))
      | Some d \<Rightarrow> Inr (d a b))"

definition match_profiles ::
  "profile_summary list \<Rightarrow> profile_summary list
     \<Rightarrow> (profile_summary \<Rightarrow> profile_summary \<Rightarrow> real) option \<Rightarrow> error + nat list" where
  "match_profiles avg0 avg1 dist_f =
     (let n_classes = length avg0
      in if n_classes \<noteq> length avg1 then Inl AssertionError
         else
           case collect (map (\<lambda>a. collect (map (\<lambda>b. norm_entry dist_f a b) avg1)) avg0) of
             Inl e \<Rightarrow> Inl e
           | Inr norms \<Rightarrow>
               if n_classes = 0 then Inl ValueError
               else collect (map np_argmin norms))"

text \<open>The squared distance between two mean profiles of one length, as a real number.\<close>

definition sq_dist :: "real list \<Rightarrow> real list \<Rightarrow> real" where
  "sq_dist a b = sum_list (map (\<lambda>d. d * d) (map2 (-) a b))"

text \<open>
  The entry of \<^verbatim>\<open>norms\<close> that \<^verbatim>\<open>match_profiles\<close> computes for two mean profiles of
  one length: the same squared distance in float64 arithmetic.
\<close>

definition computed_norm :: "real list \<Rightarrow> real list \<Rightarrow> real" where
  "computed_norm a b =
     np_sum (map (\<lambda>d. float64_round (d * d)) (map2 (\<lambda>x y. float64_round (x - y)) a b))"

section \<open>Aggregator\<close>

text \<open>A ClassAssignment \<^verbatim>\<open>(time, n)\<close> with the latitude of each location.\<close>

record class_assignment =
  lat :: "real list"
  classes :: "int list list"

text \<open>
  The body of \<^verbatim>\<open>func\<close> in \<^verbatim>\<open>count_area\<close>, as the value its local \<^verbatim>\<open>out\<close> has when
  the loop ends:
  \<^verbatim>\<open>out = np.zeros(K)\<close>; \<^verbatim>\<open>for i in range(K): out[i] = np.sum(cos_lats * (arr==i))\<close>.
\<close>

definition count_area_func_out :: "real list \<Rightarrow> nat \<Rightarrow> int list \<Rightarrow> real list" where
  "count_area_func_out cos_lats K arr =
     map (\<lambda>i. sum_list (map2 (\<lambda>c a. c * (if a = int i then 1 else 0)) cos_lats arr)) [0..<K]"

text \<open>
  \<^verbatim>\<open>count_area\<close>. The statement \<^verbatim>\<open>return out\<close> stands at the indentation of
  \<^verbatim>\<open>count_area\<close> itself, after the definition of \<^verbatim>\<open>func\<close> and before the call of
  \<^verbatim>\<open>xr.apply_ufunc\<close>: \<^verbatim>\<open>func\<close> is never called, and \<^verbatim>\<open>out\<close> is no name of that
  scope nor of the module.
\<close>

definition count_area :: "class_assignment \<Rightarrow> nat \<Rightarrow> error + real list list" where
  "count_area data_classes K =
     (let lats = lat data_classes;
          cos_lats = map (\<lambda>l. cos (l * pi / 180)) lats
      in Inl (NameError ''out''))"

text \<open>
  The body of \<^verbatim>\<open>func\<close> in \<^verbatim>\<open>mean_lat\<close>:
  \<^verbatim>\<open>for i in range(K): out[i] = np.mean(lats * (arr==i))\<close>, a mean over all locations.
\<close>

definition mean_lat_func_out :: "real list \<Rightarrow> nat \<Rightarrow> int list \<Rightarrow> real list" where
  "mean_lat_func_out lats K arr =
     map (\<lambda>i. sum_list (map2 (\<lambda>l a. l * (if a = int i then 1 else 0)) lats arr)
               / real (length (map2 (\<lambda>l a. l * (if a = int i then 1 else 0)) lats arr)))
         [0..<K]"

text \<open>\<^verbatim>\<open>mean_lat\<close>, with \<^verbatim>\<open>return out\<close> placed as in \<^verbatim>\<open>count_area\<close>.\<close>

definition mean_lat :: "class_assignment \<Rightarrow> nat \<Rightarrow> error + real list list" where
  "mean_lat data_classes K =
     (let lats = lat data_classes
      in Inl (NameError ''out''))"

section \<open>Row-wise readings\<close>

text \<open>
  What each \<^verbatim>\<open>func\<close> above computes for a single row of the reshaped array. The
  lemmas below show that the array-level definitions agree with them row by row.
\<close>

definition pca_row :: "reducer_model \<Rightarrow> float64 list \<Rightarrow> float64 list" where
  "pca_row pca row =
     map2 (\<lambda>b v. if b then NaN else Fin v)
       (take (n_components pca) (map isnan row)) (pca_project pca (map filled row))"

definition classify_row :: "classifier_model \<Rightarrow> float64 list \<Rightarrow> int" where
  "classify_row gmm row = (if isnan (row ! 0) then - 1 else int (predict gmm (map filled row)))"

definition prob_row :: "classifier_model \<Rightarrow> float64 list \<Rightarrow> float64 list" where
  "prob_row gmm row =
     (if isnan (row ! 0) then map (\<lambda>_. NaN) (predict_proba gmm (map filled row))
      else map Fin (predict_proba gmm (map filled row)))"

definition score_row :: "classifier_model \<Rightarrow> float64 list \<Rightarrow> float64" where
  "score_row gmm row = (if isnan (row ! 0) then NaN else Fin (score_samples gmm (map filled row)))"

section \<open>Lemmas on the primitives\<close>

lemma py_index_nonneg: "0 \<le> i \<Longrightarrow> i < int n \<Longrightarrow> py_index n i = Inr (nat i)"
  by (simp add: py_index_def)

lemma py_index_sentinel: "0 < n \<Longrightarrow> py_index n (- 1) = Inr (n - 1)"
  by (auto simp: py_index_def nat_diff_distrib)

lemma scatter_ok:
  "\<forall>p\<in>set ivs. 0 \<le> fst p \<and> fst p < int (length dest) \<Longrightarrow> distinct (map fst ivs) \<Longrightarrow>
   \<exists>r. scatter dest ivs = Inr r \<and> length r = length dest \<and>
       (\<forall>p\<in>set ivs. r ! nat (fst p) = snd p) \<and>
       (\<forall>j<length dest. int j \<notin> fst ` set ivs \<longrightarrow> r ! j = dest ! j)"
proof (induction ivs arbitrary: dest)
  case Nil
  then show ?case by simp
next
  case (Cons p ivs)
  obtain i v where p: "p = (i, v)" by (cases p)
  from Cons.prems p have i: "0 \<le> i" "i < int (length dest)" by auto
  let ?d = "dest[nat i := v]"
  have "\<forall>q\<in>set ivs. 0 \<le> fst q \<and> fst q < int (length ?d)" using Cons.prems by simp
  moreover have "distinct (map fst ivs)" using Cons.prems by simp
  ultimately obtain r where r: "scatter ?d ivs = Inr r" "length r = length ?d"
      "\<forall>q\<in>set ivs. r ! nat (fst q) = snd q"
      "\<forall>j<length ?d. int j \<notin> fst ` set ivs \<longrightarrow> r ! j = ?d ! j"
    using Cons.IH[of ?d] by blast
  have notin: "i \<notin> fst ` set ivs" using Cons.prems p by auto
  have "int (nat i) \<notin> fst ` set ivs" using i notin by simp
  then have ri: "r ! nat i = v" using r(4) i by simp
  have "scatter dest (p # ivs) = Inr r" using p i r(1) by (simp add: py_index_nonneg)
  moreover have "length r = length dest" using r(2) by simp
  moreover have "\<forall>q\<in>set (p # ivs). r ! nat (fst q) = snd q" using r(3) ri p by simp
  moreover have "\<forall>j<length dest. int j \<notin> fst ` set (p # ivs) \<longrightarrow> r ! j = dest ! j"
  proof (intro allI impI)
    fix j assume j: "j < length dest" "int j \<notin> fst ` set (p # ivs)"
    then have "int j \<noteq> i" "int j \<notin> fst ` set ivs" using p by auto
    then have "r ! j = ?d ! j" using r(4) j by simp
    moreover have "j \<noteq> nat i" using \<open>int j \<noteq> i\<close> i by auto
    ultimately show "r ! j = dest ! j" by simp
  qed
  ultimately show ?case by blast
qed

lemma gather_ok:
  "\<forall>x\<in>set a. - 1 \<le> x \<and> x < int (length src) \<Longrightarrow> src \<noteq> [] \<Longrightarrow>
   gather src a = Inr (map (\<lambda>x. if x = - 1 then src ! (length src - 1) else src ! nat x) a)"
proof (induction a)
  case Nil
  then show ?case by simp
next
  case (Cons x a)
  then have ih: "gather src a = Inr (map (\<lambda>x. if x = - 1 then src ! (length src - 1) else src ! nat x) a)"
    by simp
  have n: "0 < length src" using Cons.prems by simp
  show ?case
  proof (cases "x = - 1")
    case True
    then show ?thesis using ih n by (simp add: py_index_sentinel)
  next
    case False
    then have "0 \<le> x" "x < int (length src)" using Cons.prems by auto
    then show ?thesis using ih False by (simp add: py_index_nonneg)
  qed
qed

lemma is_permutation_set: "is_permutation inds \<Longrightarrow> set inds = int ` {..<length inds}"
proof -
  assume "is_permutation inds"
  then have "set (sort inds) = set (map int [0..<length inds])" by (simp add: is_permutation_def)
  then show ?thesis by (simp add: atLeast0LessThan)
qed

lemma is_permutation_distinct: "is_permutation inds \<Longrightarrow> distinct inds"
proof -
  assume "is_permutation inds"
  then have "distinct (sort inds) = distinct (map int [0..<length inds])" by (simp add: is_permutation_def)
  then show ?thesis by (simp add: distinct_map)
qed

lemma reorder_spec:
  assumes perm: "is_permutation inds" and ne: "inds \<noteq> []" and lab: "labels_ok (length inds) a"
  shows "\<exists>b. reorder a inds = Inr b \<and> length b = length a \<and>
     (\<forall>p<length a. (a ! p = - 1 \<longrightarrow> b ! p = - 1) \<and>
        (a ! p \<noteq> - 1 \<longrightarrow> 0 \<le> b ! p \<and> b ! p < int (length inds) \<and> inds ! nat (b ! p) = a ! p))"
proof -
  let ?K = "length inds"
  let ?ivs = "zip inds (map int [0..<?K])"
  have setinds: "set inds = int ` {..<?K}" using perm by (rule is_permutation_set)
  have "map fst ?ivs = inds" by (simp add: map_fst_zip)
  then have d: "distinct (map fst ?ivs)" using perm is_permutation_distinct by simp
  have rng: "\<forall>p\<in>set ?ivs. 0 \<le> fst p \<and> fst p < int (length (replicate ?K (0::int)))"
  proof
    fix p assume "p \<in> set ?ivs"
    then have "fst p \<in> set inds" using set_zip_leftD[of "fst p" "snd p" inds] by simp
    then show "0 \<le> fst p \<and> fst p < int (length (replicate ?K (0::int)))" using setinds by auto
  qed
  from scatter_ok[OF rng d] obtain inds_r where r:
    "scatter (replicate ?K 0) ?ivs = Inr inds_r" "length inds_r = ?K"
    "\<forall>p\<in>set ?ivs. inds_r ! nat (fst p) = snd p"
    by auto
  have inv: "inds_r ! nat (inds ! i) = int i" if "i < ?K" for i
  proof -
    have "(inds ! i, int i) \<in> set ?ivs" using that by (auto simp: set_zip intro!: exI[of _ i])
    then show ?thesis using r(3) by fastforce
  qed
  have ne_r: "inds_r \<noteq> []" using r(2) ne by auto
  have arng: "\<forall>x\<in>set a. - 1 \<le> x \<and> x < int (length inds_r)"
    using lab r(2) by (auto simp: labels_ok_def list_all_iff)
  let ?g = "\<lambda>x. if x = - 1 then inds_r ! (length inds_r - 1) else inds_r ! nat x"
  have g: "gather inds_r a = Inr (map ?g a)" using gather_ok[OF arng ne_r] .
  let ?b = "map2 (\<lambda>v a. if a = - 1 then - 1 else v) (map ?g a) a"
  have re: "reorder a inds = Inr ?b" using r(1) g by (simp add: reorder_def)
  have len: "length ?b = length a" by simp
  have pt: "(a ! p = - 1 \<longrightarrow> ?b ! p = - 1) \<and>
        (a ! p \<noteq> - 1 \<longrightarrow> 0 \<le> ?b ! p \<and> ?b ! p < int ?K \<and> inds ! nat (?b ! p) = a ! p)"
    if p: "p < length a" for p
  proof (cases "a ! p = - 1")
    case True
    then show ?thesis using p by simp
  next
    case False
    have "a ! p \<in> set a" using p by simp
    then have "0 \<le> a ! p \<and> a ! p < int ?K" using lab False by (auto simp: labels_ok_def list_all_iff)
    then have "a ! p \<in> set inds" using setinds by (auto intro!: image_eqI[of _ _ "nat (a ! p)"])
    then obtain i where i: "i < ?K" "inds ! i = a ! p" by (auto simp: in_set_conv_nth)
    have "?b ! p = inds_r ! nat (a ! p)" using p False by simp
    also have "\<dots> = int i" using inv[OF i(1)] i(2) by simp
    finally show ?thesis using i False by simp
  qed
  show ?thesis using re len pt by blast
qed

lemma is_permutationI:
  assumes "distinct xs" "set xs = int ` {..<length xs}"
  shows "is_permutation xs"
proof -
  have "sorted (sort xs)" "distinct (sort xs)" "set (sort xs) = set xs" using assms by simp_all
  moreover have "sorted (map int [0..<length xs])"
    by (simp add: sorted_map sorted_wrt_iff_nth_less)
  moreover have "distinct (map int [0..<length xs])" by (simp add: distinct_map)
  moreover have "set (map int [0..<length xs]) = set xs" using assms by (simp add: atLeast0LessThan)
  ultimately show ?thesis unfolding is_permutation_def
    by (metis sorted_distinct_set_unique)
qed

lemma inverse_is_permutation:
  assumes perm: "is_permutation inds" and len: "length inds_inv = length inds"
    and invh: "\<forall>i<length inds. inds_inv ! nat (inds ! i) = int i"
  shows "is_permutation inds_inv"
proof -
  let ?K = "length inds"
  have setinds: "set inds = int ` {..<?K}" using perm by (rule is_permutation_set)
  have sur: "\<exists>i<?K. inds ! i = int j" if "j < ?K" for j
  proof -
    have "int j \<in> set inds" using setinds that by simp
    then show ?thesis by (auto simp: in_set_conv_nth)
  qed
  have "set inds_inv = int ` {..<?K}"
  proof (intro equalityI subsetI)
    fix x assume "x \<in> set inds_inv"
    then obtain j where j: "j < ?K" "inds_inv ! j = x" using len by (auto simp: in_set_conv_nth)
    obtain i where i: "i < ?K" "inds ! i = int j" using sur[OF j(1)] by blast
    have "inds_inv ! nat (inds ! i) = int i" using invh i(1) by simp
    then have "x = int i" using i(2) j(2) by simp
    then show "x \<in> int ` {..<?K}" using i(1) by simp
  next
    fix x assume "x \<in> int ` {..<?K}"
    then obtain i where i: "i < ?K" "x = int i" by auto
    have "inds ! i \<in> set inds" using i(1) by simp
    then have "0 \<le> inds ! i \<and> inds ! i < int ?K" using setinds by auto
    then have "nat (inds ! i) < length inds_inv" using len by linarith
    then have "inds_inv ! nat (inds ! i) \<in> set inds_inv" by simp
    then show "x \<in> set inds_inv" using invh i by simp
  qed
  then have s: "set inds_inv = int ` {..<length inds_inv}" using len by simp
  then have "card (set inds_inv) = length inds_inv" by (simp add: card_image)
  then have "distinct inds_inv" by (rule card_distinct)
  then show ?thesis using s by (rule is_permutationI)
qed

lemma reshape_back_concat:
  "\<forall>plane\<in>set xss. length plane = n \<Longrightarrow> reshape_back (length xss) n (concat xss) = xss"
proof (induction xss)
  case Nil
  then show ?case by (simp add: reshape_back_def)
next
  case (Cons x xss)
  then have lx: "length x = n" and ih: "reshape_back (length xss) n (concat xss) = xss" by simp_all
  have "[0..<Suc (length xss)] = 0 # map Suc [0..<length xss]"
    by (simp add: upt_conv_Cons map_Suc_upt del: upt_Suc)
  then have "reshape_back (length (x # xss)) n (concat (x # xss)) =
        take n (x @ concat xss) # map (\<lambda>t. take n (drop (Suc t * n) (x @ concat xss))) [0..<length xss]"
    by (simp add: reshape_back_def comp_def del: upt_Suc)
  also have "take n (x @ concat xss) = x" using lx by simp
  also have "map (\<lambda>t. take n (drop (Suc t * n) (x @ concat xss))) [0..<length xss] =
             map (\<lambda>t. take n (drop (t * n) (concat xss))) [0..<length xss]"
    using lx by (simp add: add.commute)
  also have "\<dots> = xss" using ih by (simp add: reshape_back_def)
  finally show ?case .
qed

lemma reshape_back_map_rows:
  assumes "\<forall>plane\<in>set xss. length plane = n"
  shows "reshape_back (length xss) n (map f (reshape_rows xss)) = map (map f) xss"
proof -
  have "map f (concat xss) = concat (map (map f) xss)" by (simp add: map_concat)
  moreover have "\<forall>plane\<in>set (map (map f) xss). length plane = n" using assms by simp
  ultimately show ?thesis
    using reshape_back_concat[of "map (map f) xss" n] by (simp add: reshape_rows_def)
qed

lemma map2_same: "map2 f (map g xs) (map h xs) = map (\<lambda>x. f (g x) (h x)) xs"
  by (induction xs) simp_all

lemma well_shaped_planes: "well_shaped d \<Longrightarrow> \<forall>plane\<in>set (vals d). length plane = n_size d"
  by (simp add: well_shaped_def list_all_iff)

lemma well_shaped_rows:
  "well_shaped d \<Longrightarrow> \<forall>row\<in>set (reshape_rows (vals d)). length row = core_size d"
  by (auto simp: well_shaped_def list_all_iff reshape_rows_def)

lemma well_shaped_nth:
  "well_shaped d \<Longrightarrow> t < time_size d \<Longrightarrow> l < n_size d \<Longrightarrow>
   length (vals d ! t) = n_size d \<and> length (vals d ! t ! l) = core_size d"
  by (simp add: well_shaped_def list_all_length)

lemma rows_nonempty:
  assumes "well_shaped d" "0 < time_size d" "0 < n_size d"
  shows "reshape_rows (vals d) \<noteq> []"
proof -
  from assms obtain p ps where p: "vals d = p # ps" by (cases "vals d") (auto simp: well_shaped_def)
  then have "length p = n_size d" using assms(1) by (simp add: well_shaped_def)
  then have "p \<noteq> []" using assms(3) by auto
  then show ?thesis using p by (simp add: reshape_rows_def)
qed

lemma pca_transform_eq:
  assumes ws: "well_shaped data" and tr: "trained_reducer pca"
    and lev: "core_size data = length (pca_mean pca)"
    and pos: "0 < time_size data" "0 < n_size data" "0 < core_size data"
  shows "pca_transform data pca =
           Inr (input_after data,
                \<lparr>time_size = time_size data, n_size = n_size data,
                 core_size = n_components pca,
                 vals = map (map (pca_row pca)) (vals data),
                 layout = result_layout data\<rparr>)"
proof -
  let ?rows = "reshape_rows (vals data)"
  have ne: "map (map filled) ?rows \<noteq> []" using rows_nonempty[OF ws pos(1,2)] by simp
  have "list_all (\<lambda>x. length x = length (pca_mean pca)) (map (map filled) ?rows)"
    using well_shaped_rows[OF ws] lev by (simp add: list_all_iff)
  then have sk: "sk_transform pca (map (map filled) ?rows) =
                   Inr (map (pca_project pca) (map (map filled) ?rows))"
    using ne by (simp add: sk_transform_def)
  have mn: "min (n_components pca) (core_size data) = n_components pca"
    using tr lev by (simp add: trained_reducer_def)
  have "map2 (map2 (\<lambda>b v. if b then NaN else Fin v))
          (map (take (n_components pca)) (map (map isnan) ?rows))
          (map (pca_project pca) (map (map filled) ?rows)) = map (pca_row pca) ?rows"
    by (simp add: map2_same pca_row_def comp_def)
  moreover have "length (vals data) = time_size data" using ws by (simp add: well_shaped_def)
  ultimately have "reshape_back (time_size data) (n_size data)
         (map2 (map2 (\<lambda>b v. if b then NaN else Fin v))
          (map (take (n_components pca)) (map (map isnan) ?rows))
          (map (pca_project pca) (map (map filled) ?rows))) = map (map (pca_row pca)) (vals data)"
    using reshape_back_map_rows[OF well_shaped_planes[OF ws], of "pca_row pca"] by simp
  then show ?thesis using sk mn pos(3) by (simp add: pca_transform_def Let_def)
qed

lemma pca_row_length:
  "trained_reducer pca \<Longrightarrow> length row = length (pca_mean pca) \<Longrightarrow>
   length (pca_row pca row) = n_components pca"
  by (simp add: pca_row_def pca_project_def trained_reducer_def)

lemma pca_row_isnan:
  assumes "trained_reducer pca" "length row = length (pca_mean pca)" "c < n_components pca"
  shows "isnan (pca_row pca row ! c) = isnan (row ! c)"
proof -
  have "c < length row" using assms by (simp add: trained_reducer_def)
  then show ?thesis using assms by (simp add: pca_row_def pca_project_def trained_reducer_def)
qed

lemma sk_rows_ok:
  assumes ws: "well_shaped d" and feat: "core_size d = n_features_in gmm"
    and pos: "0 < time_size d" "0 < n_size d"
  shows "sk_rows gmm f (map (map filled) (reshape_rows (vals d))) =
           Inr (map f (map (map filled) (reshape_rows (vals d))))"
proof -
  have "map (map filled) (reshape_rows (vals d)) \<noteq> []" using rows_nonempty[OF ws pos] by simp
  moreover have "list_all (\<lambda>x. length x = n_features_in gmm) (map (map filled) (reshape_rows (vals d)))"
    using well_shaped_rows[OF ws] feat by (simp add: list_all_iff)
  ultimately show ?thesis by (simp add: sk_rows_def)
qed

lemma map2_rows:
  assumes "\<forall>row\<in>set rows. 0 < length row"
  shows "map2 (\<lambda>i v. g (i ! 0) v) (map (map isnan) rows) (map f (map (map filled) rows)) =
         map (\<lambda>row. g (isnan (row ! 0)) (f (map filled row))) rows"
  using assms by (induction rows) simp_all

lemma gmm_classify_eq:
  assumes ws: "well_shaped d" and feat: "core_size d = n_features_in gmm"
    and pos: "0 < time_size d" "0 < n_size d" "0 < core_size d"
  shows "gmm_classify d gmm = Inr (input_after d, map (map (classify_row gmm)) (vals d))"
proof -
  let ?rows = "reshape_rows (vals d)"
  have r0: "\<forall>row\<in>set ?rows. 0 < length row" using well_shaped_rows[OF ws] pos(3) by simp
  have "map2 (\<lambda>i v. if i ! 0 then - 1 else int v) (map (map isnan) ?rows)
          (map (predict gmm) (map (map filled) ?rows)) = map (classify_row gmm) ?rows"
    using map2_rows[OF r0, of "\<lambda>b v. if b then - 1 else int v" "predict gmm"]
    by (simp add: classify_row_def)
  moreover have "length (vals d) = time_size d" using ws by (simp add: well_shaped_def)
  ultimately have "reshape_back (time_size d) (n_size d)
      (map2 (\<lambda>i v. if i ! 0 then - 1 else int v) (map (map isnan) ?rows)
          (map (predict gmm) (map (map filled) ?rows))) = map (map (classify_row gmm)) (vals d)"
    using reshape_back_map_rows[OF well_shaped_planes[OF ws], of "classify_row gmm"] by simp
  then show ?thesis
    using sk_rows_ok[OF ws feat pos(1,2), of "predict gmm"] pos(3)
    by (simp add: gmm_classify_def Let_def)
qed

lemma gmm_prob_eq:
  assumes ws: "well_shaped d" and feat: "core_size d = n_features_in gmm"
    and pos: "0 < time_size d" "0 < n_size d" "0 < core_size d"
  shows "gmm_prob d gmm =
           Inr (input_after d,
                \<lparr>time_size = time_size d, n_size = n_size d,
                 core_size = gmm_n_components gmm,
                 vals = map (map (prob_row gmm)) (vals d),
                 layout = result_layout d\<rparr>)"
proof -
  let ?rows = "reshape_rows (vals d)"
  have r0: "\<forall>row\<in>set ?rows. 0 < length row" using well_shaped_rows[OF ws] pos(3) by simp
  have "map2 (\<lambda>i v. if i ! 0 then map (\<lambda>_. NaN) v else map Fin v) (map (map isnan) ?rows)
          (map (predict_proba gmm) (map (map filled) ?rows)) = map (prob_row gmm) ?rows"
    using map2_rows[OF r0, of "\<lambda>b v. if b then map (\<lambda>_. NaN) v else map Fin v" "predict_proba gmm"]
    by (simp add: prob_row_def cong: if_cong)
  moreover have "length (vals d) = time_size d" using ws by (simp add: well_shaped_def)
  ultimately have "reshape_back (time_size d) (n_size d)
      (map2 (\<lambda>i v. if i ! 0 then map (\<lambda>_. NaN) v else map Fin v) (map (map isnan) ?rows)
          (map (predict_proba gmm) (map (map filled) ?rows))) = map (map (prob_row gmm)) (vals d)"
    using reshape_back_map_rows[OF well_shaped_planes[OF ws], of "prob_row gmm"] by simp
  then show ?thesis
    using sk_rows_ok[OF ws feat pos(1,2), of "predict_proba gmm"] pos(3)
    by (simp add: gmm_prob_def Let_def)
qed

lemma gmm_score_samples_eq:
  assumes ws: "well_shaped d" and feat: "core_size d = n_features_in gmm"
    and pos: "0 < time_size d" "0 < n_size d" "0 < core_size d"
  shows "gmm_score_samples d gmm = Inr (input_after d, map (map (score_row gmm)) (vals d))"
proof -
  let ?rows = "reshape_rows (vals d)"
  have r0: "\<forall>row\<in>set ?rows. 0 < length row" using well_shaped_rows[OF ws] pos(3) by simp
  have "map2 (\<lambda>i v. if i ! 0 then NaN else Fin v) (map (map isnan) ?rows)
          (map (score_samples gmm) (map (map filled) ?rows)) = map (score_row gmm) ?rows"
    using map2_rows[OF r0, of "\<lambda>b v. if b then NaN else Fin v" "score_samples gmm"]
    by (simp add: score_row_def)
  moreover have "length (vals d) = time_size d" using ws by (simp add: well_shaped_def)
  ultimately have "reshape_back (time_size d) (n_size d)
      (map2 (\<lambda>i v. if i ! 0 then NaN else Fin v) (map (map isnan) ?rows)
          (map (score_samples gmm) (map (map filled) ?rows))) = map (map (score_row gmm)) (vals d)"
    using reshape_back_map_rows[OF well_shaped_planes[OF ws], of "score_row gmm"] by simp
  then show ?thesis
    using sk_rows_ok[OF ws feat pos(1,2), of "score_samples gmm"] pos(3)
    by (simp add: gmm_score_samples_def Let_def)
qed

lemma row_at:
  assumes "well_shaped d" "t < time_size d" "l < n_size d"
  shows "map (map f) (vals d) ! t ! l = f (vals d ! t ! l)"
proof -
  have "t < length (vals d)" using assms by (simp add: well_shaped_def)
  moreover have "l < length (vals d ! t)" using well_shaped_nth[OF assms] assms(3) by simp
  ultimately show ?thesis by simp
qed





lemma well_shaped_reduced:
  assumes ws: "well_shaped data" and tr: "trained_reducer pca"
    and lev: "core_size data = length (pca_mean pca)"
  shows "well_shaped \<lparr>time_size = time_size data, n_size = n_size data,
                      core_size = n_components pca,
                      vals = map (map (pca_row pca)) (vals data),
                      layout = b\<rparr>"
  using ws lev pca_row_length[OF tr]
  by (auto simp: well_shaped_def list_all_iff)

lemma argsort_ascending:
  assumes "sorted_wrt (<) tm"
  shows "argsort tm = map int [0..<length tm]"
proof -
  let ?z = "zip tm [0..<length tm]"
  have "sorted tm" using assms by (rule sorted_wrt_mono_rel[rotated]) simp
  then have "sorted (map fst ?z)" by (simp add: map_fst_zip)
  then have "sort_key fst ?z = ?z" by (rule sort_key_id_if_sorted)
  then have "argsort tm = map (\<lambda>p. int (snd p)) ?z" by (simp add: argsort_def)
  also have "\<dots> = map int (map snd ?z)" by (simp only: map_map comp_def)
  also have "map snd ?z = [0..<length tm]" by (simp add: map_snd_zip)
  finally show ?thesis .
qed

lemma identity_is_permutation: "is_permutation (map int [0..<K])"
proof -
  have "sorted (map int [0..<K])" by (simp add: sorted_map sorted_wrt_iff_nth_less)
  then show ?thesis by (simp add: is_permutation_def sorted_sort_id)
qed

lemma reorder_identity:
  assumes "0 < K" "labels_ok K a"
  shows "reorder a (map int [0..<K]) = Inr a"
proof -
  let ?inds = "map int [0..<K]"
  have ne: "?inds \<noteq> []" using assms(1) by simp
  have lab: "labels_ok (length ?inds) a" using assms(2) by simp
  obtain b where b: "reorder a ?inds = Inr b" "length b = length a"
    "\<forall>p<length a. (a ! p = - 1 \<longrightarrow> b ! p = - 1) \<and>
        (a ! p \<noteq> - 1 \<longrightarrow> 0 \<le> b ! p \<and> b ! p < int (length ?inds) \<and> ?inds ! nat (b ! p) = a ! p)"
    using reorder_spec[OF identity_is_permutation ne lab] by blast
  have "b = a"
  proof (rule nth_equalityI)
    show "length b = length a" using b(2) .
  next
    fix p assume "p < length b"
    then have p: "p < length a" using b(2) by simp
    show "b ! p = a ! p"
    proof (cases "a ! p = - 1")
      case True
      then show ?thesis using b(3) p by simp
    next
      case False
      then have h: "0 \<le> b ! p" "b ! p < int K" "?inds ! nat (b ! p) = a ! p" using b(3) p by auto
      then have "nat (b ! p) < K" by linarith
      then have "?inds ! nat (b ! p) = int (nat (b ! p))" by simp
      then show ?thesis using h by simp
    qed
  qed
  then show ?thesis using b(1) by simp
qed

lemma reorder_120:
  assumes "labels_ok 3 a"
  shows "reorder a [1, 2, 0] =
           Inr (map (\<lambda>x. if x = 0 then 2 else if x = 1 then 0 else if x = 2 then 1 else - 1) a)"
proof -
  let ?inds = "[1, 2, 0] :: int list"
  let ?f = "\<lambda>x::int. if x = 0 then 2 else if x = 1 then 0 else if x = 2 then 1 else - 1"
  have perm: "is_permutation ?inds" by (simp add: is_permutation_def)
  have lab: "labels_ok (length ?inds) a" using assms by (simp add: numeral_3_eq_3)
  have ne: "?inds \<noteq> []" by simp
  obtain b where b: "reorder a ?inds = Inr b" "length b = length a"
    "\<forall>p<length a. (a ! p = - 1 \<longrightarrow> b ! p = - 1) \<and>
        (a ! p \<noteq> - 1 \<longrightarrow> 0 \<le> b ! p \<and> b ! p < int (length ?inds) \<and> ?inds ! nat (b ! p) = a ! p)"
    using reorder_spec[OF perm ne lab] by blast
  have "b = map ?f a"
  proof (rule nth_equalityI)
    show "length b = length (map ?f a)" using b(2) by simp
  next
    fix p assume "p < length b"
    then have p: "p < length a" using b(2) by simp
    show "b ! p = map ?f a ! p"
    proof (cases "a ! p = - 1")
      case True
      then show ?thesis using b(3) p by simp
    next
      case False
      then have h: "0 \<le> b ! p" "b ! p < 3" "?inds ! nat (b ! p) = a ! p" using b(3) p by auto
      then consider "b ! p = 0" | "b ! p = 1" | "b ! p = 2" by linarith
      then show ?thesis
      proof cases
        case 1 then show ?thesis using h(3) p by simp
      next
        case 2 then show ?thesis using h(3) p by simp
      next
        case 3 then show ?thesis using h(3) p by simp
      qed
    qed
  qed
  then show ?thesis using b(1) by simp
qed

lemma collect_Inr: "collect (map Inr xs) = Inr xs"
  by (induction xs) simp_all

lemma collect_map_Inr: "\<forall>x\<in>set xs. f x = Inr (g x) \<Longrightarrow> collect (map f xs) = Inr (map g xs)"
  by (induction xs) simp_all

lemma argmin_from_keep: "\<forall>x\<in>set xs. bv < x \<Longrightarrow> argmin_from xs i bv bi = bi"
  by (induction xs arbitrary: i) auto

lemma argmin_from_unique:
  "j < length xs \<Longrightarrow> xs ! j < bv \<Longrightarrow> \<forall>k<length xs. k \<noteq> j \<longrightarrow> xs ! j < xs ! k \<Longrightarrow>
   argmin_from xs i bv bi = i + j"
proof (induction xs arbitrary: i bv bi j)
  case Nil
  then show ?case by simp
next
  case (Cons x xs)
  show ?case
  proof (cases j)
    case 0
    have "\<forall>y\<in>set xs. x < y"
    proof
      fix y assume "y \<in> set xs"
      then obtain k where k: "k < length xs" "xs ! k = y" by (auto simp: in_set_conv_nth)
      then have "(x # xs) ! j < (x # xs) ! Suc k" using Cons.prems(3) 0 by auto
      then show "x < y" using 0 k by simp
    qed
    then have "argmin_from xs (Suc i) x i = i" by (rule argmin_from_keep)
    then show ?thesis using Cons.prems(2) 0 by simp
  next
    case (Suc j')
    have j': "j' < length xs" using Cons.prems(1) Suc by simp
    have lt: "xs ! j' < bv" using Cons.prems(2) Suc by simp
    have ltx: "xs ! j' < x" using Cons.prems(3)[rule_format, of 0] Suc by simp
    have rest: "\<forall>k<length xs. k \<noteq> j' \<longrightarrow> xs ! j' < xs ! k"
    proof (intro allI impI)
      fix k assume "k < length xs" "k \<noteq> j'"
      then show "xs ! j' < xs ! k" using Cons.prems(3)[rule_format, of "Suc k"] Suc by simp
    qed
    have a: "argmin_from xs (Suc i) x i = Suc i + j'" using Cons.IH[OF j' ltx rest] .
    have b: "argmin_from xs (Suc i) bv bi = Suc i + j'" using Cons.IH[OF j' lt rest] .
    show ?thesis using a b Suc by simp
  qed
qed

lemma np_argmin_unique:
  assumes "j < length xs" "\<forall>k<length xs. k \<noteq> j \<longrightarrow> xs ! j < xs ! k"
  shows "np_argmin xs = Inr j"
proof (cases xs)
  case Nil
  then show ?thesis using assms by simp
next
  case (Cons x rest)
  show ?thesis
  proof (cases j)
    case 0
    have "\<forall>y\<in>set rest. x < y"
    proof
      fix y assume "y \<in> set rest"
      then obtain k where k: "k < length rest" "rest ! k = y" by (auto simp: in_set_conv_nth)
      then show "x < y" using assms(2)[rule_format, of "Suc k"] 0 Cons by simp
    qed
    then show ?thesis using Cons 0 by (simp add: np_argmin_def argmin_from_keep)
  next
    case (Suc j')
    have j': "j' < length rest" using assms(1) Suc Cons by simp
    have ltx: "rest ! j' < x" using assms(2)[rule_format, of 0] Suc Cons by simp
    have r: "\<forall>k<length rest. k \<noteq> j' \<longrightarrow> rest ! j' < rest ! k"
    proof (intro allI impI)
      fix k assume "k < length rest" "k \<noteq> j'"
      then show "rest ! j' < rest ! k" using assms(2)[rule_format, of "Suc k"] Suc Cons by simp
    qed
    show ?thesis using argmin_from_unique[OF j' ltx r, of 1 0] Cons Suc by (simp add: np_argmin_def)
  qed
qed

lemma rne_of_int: "rne (of_int k) = k"
  by (simp add: rne_def)

lemma rne_nonneg: "0 \<le> x \<Longrightarrow> 0 \<le> rne x"
  by (simp add: rne_def Let_def)

lemma ulp_pos: "0 < ulp x"
  by (simp add: ulp_def)

lemma float64_round_zero: "float64_round 0 = 0"
  by (simp add: float64_round_def rne_def)

lemma float64_round_nonneg: "0 \<le> x \<Longrightarrow> 0 \<le> float64_round x"
proof -
  assume "0 \<le> x"
  then have "0 \<le> x / ulp x" using ulp_pos[of x] by simp
  then have "0 \<le> rne (x / ulp x)" by (rule rne_nonneg)
  then have "0 \<le> ulp x * of_int (rne (x / ulp x))" using ulp_pos[of x] by simp
  then show ?thesis by (simp add: float64_round_def Let_def)
qed

lemma foldl_closed:
  assumes cl: "\<And>x y. P x \<Longrightarrow> P y \<Longrightarrow> P (fadd x y)"
  shows "P acc \<Longrightarrow> \<forall>x\<in>set xs. P x \<Longrightarrow> P (foldl fadd acc xs)"
proof (induction xs arbitrary: acc)
  case Nil
  then show ?case by simp
next
  case (Cons x xs)
  have "P (fadd acc x)" using Cons.prems by (intro cl) simp_all
  then show ?case using Cons by simp
qed

lemma unrolled_sum_closed:
  assumes cl: "\<And>x y. P x \<Longrightarrow> P y \<Longrightarrow> P (fadd x y)"
    and n: "8 \<le> length a" and all: "\<forall>x\<in>set a. P x"
  shows "P (unrolled_sum a)"
proof -
  let ?n = "length a"
  let ?m = "?n - ?n mod 8"
  let ?r = "map (\<lambda>j. foldl fadd (a ! j) (map (\<lambda>q. a ! (8 * q + j)) [1..<?m div 8])) [0..<8]"
  have m8: "8 * (?m div 8) = ?m" by (simp add: minus_mod_eq_mult_div)
  have at: "P (a ! k)" if "k < ?n" for k using all that by simp
  have rj: "P (?r ! j)" if j: "j < 8" for j
  proof -
    have "P (foldl fadd (a ! j) (map (\<lambda>q. a ! (8 * q + j)) [1..<?m div 8]))"
    proof (rule foldl_closed[of P, OF cl])
      show "P (a ! j)" using at j n by simp
      show "\<forall>x\<in>set (map (\<lambda>q. a ! (8 * q + j)) [1..<?m div 8]). P x"
      proof
        fix x assume "x \<in> set (map (\<lambda>q. a ! (8 * q + j)) [1..<?m div 8])"
        then obtain q where q: "q < ?m div 8" "x = a ! (8 * q + j)" by auto
        have "8 * q + j < 8 * (?m div 8)" using q(1) j by simp
        then have "8 * q + j < ?n" using m8 by simp
        then show "P x" using at q(2) by simp
      qed
    qed
    then show ?thesis using j by simp
  qed
  have res: "P (fadd (fadd (fadd (?r ! 0) (?r ! 1)) (fadd (?r ! 2) (?r ! 3)))
                     (fadd (fadd (?r ! 4) (?r ! 5)) (fadd (?r ! 6) (?r ! 7))))"
    by (intro cl rj) simp_all
  have "\<forall>x\<in>set (drop ?m a). P x" using all by (meson in_set_dropD)
  then have "P (foldl fadd (fadd (fadd (fadd (?r ! 0) (?r ! 1)) (fadd (?r ! 2) (?r ! 3)))
                     (fadd (fadd (?r ! 4) (?r ! 5)) (fadd (?r ! 6) (?r ! 7)))) (drop ?m a))"
    using res by (intro foldl_closed[of P, OF cl])
  then show ?thesis by (simp add: unrolled_sum_def Let_def)
qed

lemma pairwise_sum_closed:
  assumes cl: "\<And>x y. P x \<Longrightarrow> P y \<Longrightarrow> P (fadd x y)" and z: "P 0"
  shows "\<forall>x\<in>set a. P x \<Longrightarrow> P (pairwise_sum a)"
proof (induction a rule: pairwise_sum.induct)
  case (1 a)
  show ?case
  proof (cases "length a < 8")
    case True
    have "P (foldl fadd 0 a)" using z "1.prems" by (intro foldl_closed[of P, OF cl])
    then show ?thesis using True by (subst pairwise_sum.simps) simp
  next
    case False
    show ?thesis
    proof (cases "length a \<le> 128")
      case True
      have "P (unrolled_sum a)" using False "1.prems" by (intro unrolled_sum_closed[of P, OF cl]) simp_all
      then show ?thesis using True False by (subst pairwise_sum.simps) simp
    next
      case big: False
      define n2 where "n2 = length a div 2 - (length a div 2) mod 8"
      have a1: "\<forall>x\<in>set (take n2 a). P x" using "1.prems" by (meson in_set_takeD)
      have a2: "\<forall>x\<in>set (drop n2 a). P x" using "1.prems" by (meson in_set_dropD)
      have p1: "P (pairwise_sum (take n2 a))" using "1.IH"(1)[OF False big n2_def a1] .
      have p2: "P (pairwise_sum (drop n2 a))" using "1.IH"(2)[OF False big n2_def a2] .
      have "P (fadd (pairwise_sum (take n2 a)) (pairwise_sum (drop n2 a)))" using p1 p2 by (rule cl)
      then show ?thesis using False big by (subst pairwise_sum.simps) (simp add: n2_def Let_def)
    qed
  qed
qed

lemma pairwise_sum_short: "length a < 8 \<Longrightarrow> pairwise_sum a = foldl fadd 0 a"
  by (subst pairwise_sum.simps) simp

lemma fadd_zero: "fadd 0 0 = 0"
  by (simp add: fadd_def float64_round_zero)

lemma fadd_nonneg: "0 \<le> x \<Longrightarrow> 0 \<le> y \<Longrightarrow> 0 \<le> fadd x y"
  unfolding fadd_def by (rule float64_round_nonneg) simp

lemma np_sum_zeros: "\<forall>x\<in>set xs. x = 0 \<Longrightarrow> np_sum xs = 0"
  unfolding np_sum_def
  by (rule pairwise_sum_closed[of "\<lambda>x. x = 0"]) (simp_all add: fadd_zero)

lemma np_sum_nonneg: "\<forall>x\<in>set xs. 0 \<le> x \<Longrightarrow> 0 \<le> np_sum xs"
  unfolding np_sum_def
  by (rule pairwise_sum_closed[of "\<lambda>x. 0 \<le> x"]) (simp_all add: fadd_nonneg)

lemma computed_norm_self: "computed_norm a a = 0"
proof -
  have "\<forall>x\<in>set (map (\<lambda>d. float64_round (d * d)) (map2 (\<lambda>x y. float64_round (x - y)) a a)). x = 0"
    by (induction a) (simp_all add: float64_round_zero)
  then show ?thesis unfolding computed_norm_def by (rule np_sum_zeros)
qed

lemma computed_norm_nonneg: "0 \<le> computed_norm a b"
  unfolding computed_norm_def by (rule np_sum_nonneg) (auto intro: float64_round_nonneg)

lemma norm_entry_computed:
  "length (mean a) = length (mean b) \<Longrightarrow> norm_entry None a b = Inr (computed_norm (mean a) (mean b))"
  by (simp add: norm_entry_def np_sub_def computed_norm_def)

lemma abs_int_ge1: "k \<noteq> 0 \<Longrightarrow> 1 \<le> \<bar>real_of_int k\<bar>"
proof -
  assume "k \<noteq> 0"
  then have "1 \<le> \<bar>k\<bar>" by linarith
  then have "real_of_int 1 \<le> real_of_int \<bar>k\<bar>" by (simp only: of_int_le_iff)
  then show ?thesis by simp
qed

lemma abs_int_lt: "\<bar>k\<bar> < 2 ^ 53 \<Longrightarrow> \<bar>real_of_int k\<bar> < 2 ^ 53"
proof -
  assume "\<bar>k\<bar> < 2 ^ 53"
  then have "real_of_int \<bar>k\<bar> < real_of_int (2 ^ 53)" by (simp only: of_int_less_iff)
  then show ?thesis by simp
qed

lemma log2_bounds:
  assumes "1 \<le> x" "x < 2 ^ 53"
  shows "0 \<le> \<lfloor>log 2 x\<rfloor>" "\<lfloor>log 2 x\<rfloor> \<le> 52"
proof -
  have l0: "0 \<le> log 2 x" using assms(1) by simp
  have "0 < x" using assms(1) by linarith
  then have "log 2 x < log 2 (2 ^ 53)"
    using assms(2) by (subst log_less_cancel_iff) (simp_all del: power_numeral)
  also have "log 2 (2 ^ 53) = 53" by (subst log_nat_power) simp_all
  finally have l1: "log 2 x < 53" .
  show "0 \<le> \<lfloor>log 2 x\<rfloor>" using l0 by simp
  show "\<lfloor>log 2 x\<rfloor> \<le> 52" using l1 by (simp add: floor_less_iff)
qed

lemma ulp_int:
  assumes x1: "1 \<le> \<bar>x\<bar>" and x2: "\<bar>x\<bar> < 2 ^ 53"
  shows "\<exists>n. ulp x = 1 / 2 ^ n"
proof -
  have "(1::real) / 2 ^ 1022 \<le> 1" by simp
  then have nosub: "\<not> \<bar>x\<bar> < 1 / 2 ^ 1022" using x1 by linarith
  let ?e = "\<lfloor>log 2 \<bar>x\<bar>\<rfloor>"
  have e1: "?e \<le> 52" using log2_bounds(2)[OF x1 x2] .
  define n where "n = nat (52 - ?e)"
  have "?e - 52 = - int n" using e1 by (simp add: n_def)
  then have "real_of_int (?e - 52) = - real n" by (metis of_int_minus of_int_of_nat_eq)
  then have "2 powr real_of_int (?e - 52) = 2 powr (- real n)" by simp
  also have "\<dots> = 1 / 2 powr real n" by (simp add: powr_minus divide_simps)
  also have "2 powr real n = (2::real) ^ n" by (simp add: powr_realpow)
  finally have "2 powr real_of_int (?e - 52) = 1 / (2::real) ^ n" .
  then have "ulp x = 1 / 2 ^ n" using nosub by (simp only: ulp_def if_False)
  then show ?thesis ..
qed

lemma float64_round_int:
  assumes nz: "k \<noteq> 0" and bd: "\<bar>k\<bar> < 2 ^ 53"
  shows "float64_round (of_int k) = of_int k"
proof -
  let ?x = "of_int k :: real"
  have x1: "1 \<le> \<bar>?x\<bar>" using nz by (rule abs_int_ge1)
  have x2: "\<bar>?x\<bar> < 2 ^ 53" using bd by (rule abs_int_lt)
  obtain n where u: "ulp ?x = 1 / 2 ^ n" using ulp_int[OF x1 x2] by blast
  have q: "?x / ulp ?x = of_int (k * 2 ^ n)" by (simp add: u)
  have r: "rne (?x / ulp ?x) = k * 2 ^ n" unfolding q by (rule rne_of_int)
  have y: "ulp ?x * of_int (rne (?x / ulp ?x)) = ?x" unfolding r unfolding u by simp
  have big: "(2::real) ^ 53 \<le> 2 ^ 1024" by (rule power_increasing) simp_all
  have b1: "\<not> 2 ^ 1024 \<le> ?x" using x2 big by linarith
  have b2: "\<not> ?x \<le> - (2 ^ 1024)" using x2 big by linarith
  show ?thesis unfolding float64_round_def Let_def y using b1 b2 by (simp only: if_False)
qed

lemma draw_indices_spec:
  "distinct pool \<Longrightarrow> N \<le> length pool \<Longrightarrow>
   length (draw_indices pool N r) = N \<and> distinct (draw_indices pool N r) \<and>
   set (draw_indices pool N r) \<subseteq> set pool"
proof (induction N arbitrary: pool r)
  case 0
  then show ?case by simp
next
  case (Suc k)
  then have ne: "pool \<noteq> []" by auto
  define j where "j = r 0 mod length pool"
  have j: "j < length pool" using ne by (simp add: j_def)
  let ?rest = "take j pool @ drop (Suc j) pool"
  have pool: "pool = take j pool @ pool ! j # drop (Suc j) pool"
    using j by (simp add: id_take_nth_drop[symmetric])
  have d: "distinct (take j pool @ pool ! j # drop (Suc j) pool)" using Suc.prems(1) pool by simp
  have dr: "distinct ?rest" using d by simp
  have notin: "pool ! j \<notin> set ?rest" using d by auto
  have sub: "set ?rest \<subseteq> set pool"
    using set_take_subset[of j pool] set_drop_subset[of "Suc j" pool] by auto
  have len: "k \<le> length ?rest" using Suc.prems(2) j by simp
  have ih: "length (draw_indices ?rest k (\<lambda>i. r (Suc i))) = k \<and>
            distinct (draw_indices ?rest k (\<lambda>i. r (Suc i))) \<and>
            set (draw_indices ?rest k (\<lambda>i. r (Suc i))) \<subseteq> set ?rest"
    using Suc.IH[OF dr len] .
  have eq: "draw_indices pool (Suc k) r = pool ! j # draw_indices ?rest k (\<lambda>i. r (Suc i))"
    using ne by (simp add: j_def Let_def)
  have "pool ! j \<in> set pool" using j by simp
  then show ?case unfolding eq using ih notin sub by auto
qed

lemma length_concat_uniform:
  "\<forall>xs\<in>set xss. length xs = T \<Longrightarrow> length (concat xss) = length xss * T"
  by (induction xss) simp_all

lemma nth_concat_uniform:
  assumes u: "\<forall>xs\<in>set xss. length xs = T" and m: "m < length xss" and t: "t < T"
  shows "concat xss ! (m * T + t) = xss ! m ! t"
proof -
  have "reshape_back (length xss) T (concat xss) ! m = xss ! m"
    using reshape_back_concat[OF u] by simp
  then have "take T (drop (m * T) (concat xss)) = xss ! m" using m by (simp add: reshape_back_def)
  then have "xss ! m ! t = take T (drop (m * T) (concat xss)) ! t" by simp
  also have "\<dots> = drop (m * T) (concat xss) ! t" using t by simp
  also have "\<dots> = concat xss ! (m * T + t)"
  proof -
    have "m * T + t < length xss * T"
    proof -
      have "m * T + t < m * T + T" using t by simp
      also have "\<dots> = Suc m * T" by simp
      also have "\<dots> \<le> length xss * T" using m by (intro mult_le_mono1) simp
      finally show ?thesis .
    qed
    then have "m * T + t < length (concat xss)" using length_concat_uniform[OF u] by simp
    then have "m * T \<le> length (concat xss)" by linarith
    then show ?thesis by simp
  qed
  finally show ?thesis by simp
qed



lemma random_sample_no_time_slice:
  "time_size data = 0 \<Longrightarrow> random_sample data N g = Inl ValueError"
  by (simp add: random_sample_def)

lemma random_sample_too_many:
  assumes "well_shaped data" "0 < time_size data" "n_size data < N"
  shows "random_sample data N g = Inl ValueError"
proof -
  have "length (vals data ! 0) = n_size data"
    using assms(1,2) by (simp add: well_shaped_def list_all_length)
  then have c: "rng_choice (g 0) (vals data ! 0) N = Inl ValueError"
    using assms(3) by (simp add: rng_choice_def)
  have "[0..<time_size data] = 0 # [1..<time_size data]" using assms(2) by (simp add: upt_rec)
  then have "collect (map (\<lambda>t. rng_choice (g t) (vals data ! t) N) [0..<time_size data])
               = Inl ValueError"
    using c by simp
  then show ?thesis using assms(2) by (simp add: random_sample_def)
qed


section \<open>Reducer: missing values in pca\_transform\<close>




section \<open>Classifier: which rows are marked missing\<close>

text \<open>
  C10. For a trained ClassifierModel and a ReducedArray of matching component count,
  \<^verbatim>\<open>gmm_classify\<close>, \<^verbatim>\<open>gmm_prob\<close> and \<^verbatim>\<open>gmm_score_samples\<close> give the missing-row output
  (the sentinel \<open>-1\<close>, an all-NaN probability vector, a NaN score) to a row exactly when
  the first component of that row is missing. A row whose first component is present is
  zero-filled at its missing positions and gets the model's ordinary output on the
  filled row, never the missing-row output.
\<close>

theorem gmm_missing_by_first_component:
  assumes ws: "well_shaped d" and tr: "trained_classifier gmm"
    and feat: "core_size d = n_features_in gmm"
    and pos: "0 < time_size d" "0 < n_size d"
  shows "\<exists>d1 cls d2 pr d3 sc.
           gmm_classify d gmm = Inr (d1, cls) \<and>
           gmm_prob d gmm = Inr (d2, pr) \<and>
           gmm_score_samples d gmm = Inr (d3, sc) \<and>
           (\<forall>t<time_size d. \<forall>l<n_size d.
              (isnan (vals d ! t ! l ! 0) \<longrightarrow>
                 cls ! t ! l = - 1 \<and>
                 vals pr ! t ! l = replicate (gmm_n_components gmm) NaN \<and>
                 sc ! t ! l = NaN) \<and>
              (\<not> isnan (vals d ! t ! l ! 0) \<longrightarrow>
                 cls ! t ! l = int (predict gmm (map filled (vals d ! t ! l))) \<and>
                 cls ! t ! l \<noteq> - 1 \<and>
                 vals pr ! t ! l = map Fin (predict_proba gmm (map filled (vals d ! t ! l))) \<and>
                 \<not> has_missing (vals pr ! t ! l) \<and>
                 sc ! t ! l = Fin (score_samples gmm (map filled (vals d ! t ! l)))))"
proof -
  have cpos: "0 < core_size d" using tr feat by (simp add: trained_classifier_def)
  let ?cls = "map (map (classify_row gmm)) (vals d)"
  let ?pr = "\<lparr>time_size = time_size d, n_size = n_size d,
               core_size = gmm_n_components gmm,
               vals = map (map (prob_row gmm)) (vals d),
               layout = result_layout d\<rparr>"
  let ?sc = "map (map (score_row gmm)) (vals d)"
  have e1: "gmm_classify d gmm = Inr (input_after d, ?cls)"
    using gmm_classify_eq[OF ws feat pos cpos] .
  have e2: "gmm_prob d gmm = Inr (input_after d, ?pr)"
    using gmm_prob_eq[OF ws feat pos cpos] .
  have e3: "gmm_score_samples d gmm = Inr (input_after d, ?sc)"
    using gmm_score_samples_eq[OF ws feat pos cpos] .
  have len: "length (predict_proba gmm x) = gmm_n_components gmm" for x
    using tr by (simp add: trained_classifier_def)
  have rows: "(isnan (vals d ! t ! l ! 0) \<longrightarrow>
                 ?cls ! t ! l = - 1 \<and>
                 vals ?pr ! t ! l = replicate (gmm_n_components gmm) NaN \<and>
                 ?sc ! t ! l = NaN) \<and>
              (\<not> isnan (vals d ! t ! l ! 0) \<longrightarrow>
                 ?cls ! t ! l = int (predict gmm (map filled (vals d ! t ! l))) \<and>
                 ?cls ! t ! l \<noteq> - 1 \<and>
                 vals ?pr ! t ! l = map Fin (predict_proba gmm (map filled (vals d ! t ! l))) \<and>
                 \<not> has_missing (vals ?pr ! t ! l) \<and>
                 ?sc ! t ! l = Fin (score_samples gmm (map filled (vals d ! t ! l))))"
    if tl: "t < time_size d" "l < n_size d" for t l
  proof -
    have c: "?cls ! t ! l = classify_row gmm (vals d ! t ! l)" using row_at[OF ws tl] .
    have p: "vals ?pr ! t ! l = prob_row gmm (vals d ! t ! l)" using row_at[OF ws tl] by simp
    have s: "?sc ! t ! l = score_row gmm (vals d ! t ! l)" using row_at[OF ws tl] .
    have nm: "\<not> has_missing (map Fin xs)" for xs :: "real list"
      by (simp add: has_missing_def list_ex_iff)
    show ?thesis unfolding c p s
      by (simp add: classify_row_def prob_row_def score_row_def len map_replicate_const nm)
  qed
  show ?thesis using e1 e2 e3 rows by blast
qed

text \<open>
  The theorem on two rows: \<open>[NaN, 1]\<close> is marked missing, and \<open>[1, NaN]\<close> is
  classified as the filled row \<open>[1, 0]\<close>.
\<close>

theorem gmm_missing_by_first_component_witness:
  "well_shaped \<lparr>time_size = 1, n_size = 2, core_size = 2,
                vals = [[[NaN, Fin 1], [Fin 1, NaN]]], layout = Reshape_view\<rparr> \<and>
   trained_classifier \<lparr>gmm_n_components = 2, n_features_in = 2,
       predict = (\<lambda>x. if x ! 0 < 0 then 0 else 1),
       predict_proba = (\<lambda>x. if x ! 0 < 0 then [1, 0] else [0, 1]),
       score_samples = (\<lambda>x. 0)\<rparr> \<and>
   (\<exists>d1 cls d2 pr d3 sc.
      gmm_classify \<lparr>time_size = 1, n_size = 2, core_size = 2,
                vals = [[[NaN, Fin 1], [Fin 1, NaN]]], layout = Reshape_view\<rparr>
        \<lparr>gmm_n_components = 2, n_features_in = 2,
         predict = (\<lambda>x. if x ! 0 < 0 then 0 else 1),
         predict_proba = (\<lambda>x. if x ! 0 < 0 then [1, 0] else [0, 1]),
         score_samples = (\<lambda>x. 0)\<rparr> = Inr (d1, cls) \<and>
      gmm_prob \<lparr>time_size = 1, n_size = 2, core_size = 2,
                vals = [[[NaN, Fin 1], [Fin 1, NaN]]], layout = Reshape_view\<rparr>
        \<lparr>gmm_n_components = 2, n_features_in = 2,
         predict = (\<lambda>x. if x ! 0 < 0 then 0 else 1),
         predict_proba = (\<lambda>x. if x ! 0 < 0 then [1, 0] else [0, 1]),
         score_samples = (\<lambda>x. 0)\<rparr> = Inr (d2, pr) \<and>
      gmm_score_samples \<lparr>time_size = 1, n_size = 2, core_size = 2,
                vals = [[[NaN, Fin 1], [Fin 1, NaN]]], layout = Reshape_view\<rparr>
        \<lparr>gmm_n_components = 2, n_features_in = 2,
         predict = (\<lambda>x. if x ! 0 < 0 then 0 else 1),
         predict_proba = (\<lambda>x. if x ! 0 < 0 then [1, 0] else [0, 1]),
         score_samples = (\<lambda>x. 0)\<rparr> = Inr (d3, sc) \<and>
      cls ! 0 ! 0 = - 1 \<and> cls ! 0 ! 1 = 1 \<and>
      vals pr ! 0 ! 0 = [NaN, NaN] \<and> vals pr ! 0 ! 1 = [Fin 0, Fin 1] \<and>
      sc ! 0 ! 0 = NaN \<and> sc ! 0 ! 1 = Fin 0)"
proof -
  let ?D = "\<lparr>time_size = 1, n_size = 2, core_size = 2,
                vals = [[[NaN, Fin 1], [Fin 1, NaN]]], layout = Reshape_view\<rparr>"
  let ?G = "\<lparr>gmm_n_components = 2, n_features_in = 2,
         predict = (\<lambda>x::real list. if x ! 0 < 0 then 0 else (1::nat)),
         predict_proba = (\<lambda>x::real list. if x ! 0 < 0 then [1, 0] else [0, 1::real]),
         score_samples = (\<lambda>x::real list. 0::real)\<rparr>"
  have h1: "well_shaped ?D" by (simp add: well_shaped_def)
  have h2: "trained_classifier ?G" by (simp add: trained_classifier_def)
  have h3: "core_size ?D = n_features_in ?G" by simp
  have h4: "0 < time_size ?D" "0 < n_size ?D" by simp_all
  obtain d1 cls d2 pr d3 sc where r:
    "gmm_classify ?D ?G = Inr (d1, cls)" "gmm_prob ?D ?G = Inr (d2, pr)"
    "gmm_score_samples ?D ?G = Inr (d3, sc)"
    "\<forall>t<time_size ?D. \<forall>l<n_size ?D.
              (isnan (vals ?D ! t ! l ! 0) \<longrightarrow>
                 cls ! t ! l = - 1 \<and>
                 vals pr ! t ! l = replicate (gmm_n_components ?G) NaN \<and>
                 sc ! t ! l = NaN) \<and>
              (\<not> isnan (vals ?D ! t ! l ! 0) \<longrightarrow>
                 cls ! t ! l = int (predict ?G (map filled (vals ?D ! t ! l))) \<and>
                 cls ! t ! l \<noteq> - 1 \<and>
                 vals pr ! t ! l = map Fin (predict_proba ?G (map filled (vals ?D ! t ! l))) \<and>
                 \<not> has_missing (vals pr ! t ! l) \<and>
                 sc ! t ! l = Fin (score_samples ?G (map filled (vals ?D ! t ! l))))"
    using gmm_missing_by_first_component[OF h1 h2 h3 h4] by blast
  have a: "cls ! 0 ! 0 = - 1 \<and> vals pr ! 0 ! 0 = [NaN, NaN] \<and> sc ! 0 ! 0 = NaN"
    using r(4) by (simp add: numeral_2_eq_2)
  have b: "cls ! 0 ! 1 = 1 \<and> vals pr ! 0 ! 1 = [Fin 0, Fin 1] \<and> sc ! 0 ! 1 = Fin 0"
    using r(4) by simp
  show ?thesis using h1 h2 r(1-3) a b by blast
qed

section \<open>End to end: transform, then classify\<close>

text \<open>
  C3. For a \<open>(time = 2, location = 4, depth = 3)\<close> ProfileArray in which location
  \<open>m\<close> is missing at every depth level for both time steps and every other profile
  has no missing value, \<^verbatim>\<open>pca_transform\<close> with a trained ReducerModel followed by
  \<^verbatim>\<open>gmm_classify\<close> with a trained \<open>K\<close>-component ClassifierModel gives the sentinel
  \<open>-1\<close> at location \<open>m\<close> for both time steps and a label in \<open>[0, K)\<close> at every
  other location and time.
\<close>

theorem transform_then_classify_marks_missing_location:
  assumes ws: "well_shaped data"
    and shape: "time_size data = 2" "n_size data = 4" "core_size data = 3"
    and tr: "trained_reducer pca" and lev: "length (pca_mean pca) = 3"
    and tc: "trained_classifier gmm" and feat: "n_features_in gmm = n_components pca"
    and m: "m < 4"
    and miss: "\<forall>t<2. fully_missing (vals data ! t ! m)"
    and pres: "\<forall>t<2. \<forall>l<4. l \<noteq> m \<longrightarrow> \<not> has_missing (vals data ! t ! l)"
  shows "\<exists>data' red red' cls.
           pca_transform data pca = Inr (data', red) \<and>
           gmm_classify red gmm = Inr (red', cls) \<and>
           (\<forall>t<2. \<forall>l<4.
              (l = m \<longrightarrow> cls ! t ! l = - 1) \<and>
              (l \<noteq> m \<longrightarrow> 0 \<le> cls ! t ! l \<and> cls ! t ! l < int (gmm_n_components gmm)))"
proof -
  let ?red = "\<lparr>time_size = time_size data, n_size = n_size data,
               core_size = n_components pca,
               vals = map (map (pca_row pca)) (vals data),
               layout = result_layout data\<rparr>"
  let ?cls = "map (map (classify_row gmm)) (vals ?red)"
  have lev': "core_size data = length (pca_mean pca)" using shape lev by simp
  have pos: "0 < time_size data" "0 < n_size data" "0 < core_size data" using shape by simp_all
  have e1: "pca_transform data pca = Inr (input_after data, ?red)"
    using pca_transform_eq[OF ws tr lev' pos] .
  have wsr: "well_shaped ?red" using well_shaped_reduced[OF ws tr lev'] .
  have ncpos: "0 < n_components pca" using tc feat by (simp add: trained_classifier_def)
  have e2: "gmm_classify ?red gmm = Inr (input_after ?red, ?cls)"
    using gmm_classify_eq[OF wsr, of gmm] feat pos ncpos by simp
  have K: "predict gmm x < gmm_n_components gmm" for x
    using tc by (simp add: trained_classifier_def)
  have rows: "(l = m \<longrightarrow> ?cls ! t ! l = - 1) \<and>
              (l \<noteq> m \<longrightarrow> 0 \<le> ?cls ! t ! l \<and> ?cls ! t ! l < int (gmm_n_components gmm))"
    if tl: "t < 2" "l < 4" for t l
  proof -
    let ?row = "vals data ! t ! l"
    have tl': "t < time_size data" "l < n_size data" using tl shape by simp_all
    have tlr: "t < time_size ?red" "l < n_size ?red" using tl' by simp_all
    have len: "length ?row = length (pca_mean pca)" using well_shaped_nth[OF ws tl'] lev' by simp
    have r: "vals ?red ! t ! l = pca_row pca ?row" using row_at[OF ws tl'] by simp
    have c: "?cls ! t ! l = classify_row gmm (pca_row pca ?row)"
      using row_at[OF wsr tlr, of "classify_row gmm"] r by simp
    have first: "isnan (pca_row pca ?row ! 0) = isnan (?row ! 0)"
      using pca_row_isnan[OF tr len ncpos] .
    have l0: "0 < length ?row" using len lev by simp
    show ?thesis
    proof (cases "l = m")
      case True
      then have "fully_missing ?row" using miss tl by simp
      then have "isnan (?row ! 0)" using l0 by (simp add: fully_missing_def list_all_length)
      then show ?thesis using True c first by (simp add: classify_row_def)
    next
      case False
      then have "\<not> has_missing ?row" using pres tl by simp
      then have "\<not> isnan (?row ! 0)" using l0 by (auto simp: has_missing_def list_ex_iff)
      then show ?thesis using False c first K by (simp add: classify_row_def)
    qed
  qed
  show ?thesis using e1 e2 rows by blast
qed

text \<open>The theorem on a concrete array whose location 1 is missing.\<close>

theorem transform_then_classify_marks_missing_location_witness:
  "well_shaped \<lparr>time_size = 2, n_size = 4, core_size = 3,
      vals = [[[Fin 1, Fin 2, Fin 3], [NaN, NaN, NaN], [Fin (- 1), Fin 0, Fin 2], [Fin 4, Fin 4, Fin 4]],
              [[Fin 2, Fin 2, Fin 3], [NaN, NaN, NaN], [Fin (- 2), Fin 1, Fin 2], [Fin 5, Fin 4, Fin 3]]], layout = Reshape_view\<rparr> \<and>
   trained_reducer \<lparr>pca_mean = [0, 0, 0], pca_components = [[1, 0, 0], [0, 1, 0]], n_components = 2\<rparr> \<and>
   trained_classifier \<lparr>gmm_n_components = 2, n_features_in = 2,
       predict = (\<lambda>x. if x ! 0 < 0 then 0 else 1),
       predict_proba = (\<lambda>x. if x ! 0 < 0 then [1, 0] else [0, 1]),
       score_samples = (\<lambda>x. 0)\<rparr> \<and>
   (\<exists>data' red red' cls.
      pca_transform \<lparr>time_size = 2, n_size = 4, core_size = 3,
      vals = [[[Fin 1, Fin 2, Fin 3], [NaN, NaN, NaN], [Fin (- 1), Fin 0, Fin 2], [Fin 4, Fin 4, Fin 4]],
              [[Fin 2, Fin 2, Fin 3], [NaN, NaN, NaN], [Fin (- 2), Fin 1, Fin 2], [Fin 5, Fin 4, Fin 3]]], layout = Reshape_view\<rparr>
        \<lparr>pca_mean = [0, 0, 0], pca_components = [[1, 0, 0], [0, 1, 0]], n_components = 2\<rparr>
        = Inr (data', red) \<and>
      gmm_classify red \<lparr>gmm_n_components = 2, n_features_in = 2,
       predict = (\<lambda>x. if x ! 0 < 0 then 0 else 1),
       predict_proba = (\<lambda>x. if x ! 0 < 0 then [1, 0] else [0, 1]),
       score_samples = (\<lambda>x. 0)\<rparr> = Inr (red', cls) \<and>
      cls ! 0 ! 1 = - 1 \<and> cls ! 1 ! 1 = - 1 \<and>
      0 \<le> cls ! 0 ! 0 \<and> cls ! 0 ! 0 < 2 \<and> 0 \<le> cls ! 1 ! 3 \<and> cls ! 1 ! 3 < 2)"
proof -
  let ?D = "\<lparr>time_size = 2, n_size = 4, core_size = 3,
      vals = [[[Fin 1, Fin 2, Fin 3], [NaN, NaN, NaN], [Fin (- 1), Fin 0, Fin 2], [Fin 4, Fin 4, Fin 4]],
              [[Fin 2, Fin 2, Fin 3], [NaN, NaN, NaN], [Fin (- 2), Fin 1, Fin 2], [Fin 5, Fin 4, Fin 3]]], layout = Reshape_view\<rparr>"
  let ?P = "\<lparr>pca_mean = [0, 0, 0], pca_components = [[1, 0, 0], [0, 1, 0]], n_components = 2\<rparr>"
  let ?G = "\<lparr>gmm_n_components = 2, n_features_in = 2,
         predict = (\<lambda>x::real list. if x ! 0 < 0 then 0 else (1::nat)),
         predict_proba = (\<lambda>x::real list. if x ! 0 < 0 then [1, 0] else [0, 1::real]),
         score_samples = (\<lambda>x::real list. 0::real)\<rparr>"
  have h1: "well_shaped ?D" by (simp add: well_shaped_def)
  have h2: "time_size ?D = 2" "n_size ?D = 4" "core_size ?D = 3" by simp_all
  have h3: "trained_reducer ?P" by (simp add: trained_reducer_def)
  have h4: "length (pca_mean ?P) = 3" by simp
  have h5: "trained_classifier ?G" by (simp add: trained_classifier_def)
  have h6: "n_features_in ?G = n_components ?P" by simp
  have h7: "(1::nat) < 4" by simp
  have h8: "\<forall>t<2. fully_missing (vals ?D ! t ! 1)"
    by (simp add: fully_missing_def less_Suc_eq numeral_2_eq_2)
  have h9: "\<forall>t<2. \<forall>l<4. l \<noteq> 1 \<longrightarrow> \<not> has_missing (vals ?D ! t ! l)"
    by (simp add: has_missing_def less_Suc_eq numeral_2_eq_2 eval_nat_numeral)
  obtain data' red red' cls where r:
    "pca_transform ?D ?P = Inr (data', red)" "gmm_classify red ?G = Inr (red', cls)"
    "\<forall>t<2. \<forall>l<4.
              (l = 1 \<longrightarrow> cls ! t ! l = - 1) \<and>
              (l \<noteq> 1 \<longrightarrow> 0 \<le> cls ! t ! l \<and> cls ! t ! l < int (gmm_n_components ?G))"
    using transform_then_classify_marks_missing_location[OF h1 h2 h3 h4 h5 h6 h7 h8 h9] by blast
  have a: "cls ! 0 ! 1 = - 1 \<and> cls ! 1 ! 1 = - 1"
    using r(3)[rule_format, of 0 1] r(3)[rule_format, of 1 1] by simp
  have b: "0 \<le> cls ! 0 ! 0 \<and> cls ! 0 ! 0 < 2" using r(3)[rule_format, of 0 0] by simp
  have c: "0 \<le> cls ! 1 ! 3 \<and> cls ! 1 ! 3 < 2"
    using r(3)[rule_format, of 1 3] by simp
  show ?thesis using h1 h3 h5 r(1,2) a b c by blast
qed

section \<open>What the calls do to their input array\<close>




section \<open>LabelAligner: reorder is undone by the inverse permutation\<close>

text \<open>
  C2. For a ClassAssignment \<open>a\<close> over \<open>K \<ge> 1\<close> classes and a permutation array
  \<open>inds\<close> of \<open>[0, K)\<close> with inverse array \<open>inds_inv\<close>, \<^verbatim>\<open>reorder\<close> succeeds,
  \<^verbatim>\<open>reorder(reorder(a, inds), inds_inv)\<close> is \<open>a\<close> again, and every position holding
  the sentinel \<open>-1\<close> in \<open>a\<close> holds \<open>-1\<close> after the reorder.
\<close>

theorem reorder_roundtrip:
  assumes perm: "is_permutation inds" and ne: "inds \<noteq> []" and lab: "labels_ok (length inds) a"
    and len: "length inds_inv = length inds"
    and invh: "\<forall>i<length inds. inds_inv ! nat (inds ! i) = int i"
  shows "\<exists>b. reorder a inds = Inr b \<and> reorder b inds_inv = Inr a \<and>
             (\<forall>p<length a. a ! p = - 1 \<longrightarrow> b ! p = - 1)"
proof -
  let ?K = "length inds"
  obtain b where b: "reorder a inds = Inr b" "length b = length a"
    "\<forall>p<length a. (a ! p = - 1 \<longrightarrow> b ! p = - 1) \<and>
        (a ! p \<noteq> - 1 \<longrightarrow> 0 \<le> b ! p \<and> b ! p < int ?K \<and> inds ! nat (b ! p) = a ! p)"
    using reorder_spec[OF perm ne lab] by blast
  have hpinv: "is_permutation inds_inv" using inverse_is_permutation[OF perm len invh] .
  have neinv: "inds_inv \<noteq> []" using ne len by auto
  have labb: "labels_ok (length inds_inv) b"
    unfolding labels_ok_def list_all_length
  proof (intro allI impI)
    fix p assume "p < length b"
    then have "p < length a" using b(2) by simp
    then show "b ! p = - 1 \<or> (0 \<le> b ! p \<and> b ! p < int (length inds_inv))"
      using b(3) len by auto
  qed
  obtain c where c: "reorder b inds_inv = Inr c" "length c = length b"
    "\<forall>p<length b. (b ! p = - 1 \<longrightarrow> c ! p = - 1) \<and>
        (b ! p \<noteq> - 1 \<longrightarrow> 0 \<le> c ! p \<and> c ! p < int (length inds_inv) \<and> inds_inv ! nat (c ! p) = b ! p)"
    using reorder_spec[OF hpinv neinv labb] by blast
  have dinv: "distinct inds_inv" using hpinv by (rule is_permutation_distinct)
  have "c = a"
  proof (rule nth_equalityI)
    show "length c = length a" using c(2) b(2) by simp
  next
    fix p assume "p < length c"
    then have p: "p < length a" "p < length b" using c(2) b(2) by simp_all
    show "c ! p = a ! p"
    proof (cases "a ! p = - 1")
      case True
      then have "b ! p = - 1" using b(3) p by simp
      then show ?thesis using c(3) p True by simp
    next
      case False
      then have bp: "0 \<le> b ! p" "b ! p < int ?K" "inds ! nat (b ! p) = a ! p" using b(3) p by auto
      then have "b ! p \<noteq> - 1" by simp
      then have cp: "0 \<le> c ! p" "c ! p < int (length inds_inv)" "inds_inv ! nat (c ! p) = b ! p"
        using c(3) p by auto
      have "a ! p \<in> set a" using p by simp
      then have ap: "0 \<le> a ! p" "a ! p < int ?K"
        using lab False by (auto simp: labels_ok_def list_all_iff)
      have "nat (b ! p) < ?K" using bp by linarith
      then have "inds_inv ! nat (inds ! nat (b ! p)) = int (nat (b ! p))" using invh by blast
      then have "inds_inv ! nat (a ! p) = b ! p" using bp by simp
      then have "inds_inv ! nat (c ! p) = inds_inv ! nat (a ! p)" using cp by simp
      moreover have "nat (c ! p) < length inds_inv" "nat (a ! p) < length inds_inv" using cp ap len by simp_all
      ultimately have "nat (c ! p) = nat (a ! p)" using dinv by (simp add: nth_eq_iff_index_eq)
      then show ?thesis using cp ap by simp
    qed
  qed
  then show ?thesis using b c by blast
qed

text \<open>The theorem at the permutation \<open>[1, 2, 0]\<close>, whose inverse is \<open>[2, 0, 1]\<close>.\<close>

theorem reorder_roundtrip_witness:
  "is_permutation [1, 2, 0] \<and> labels_ok 3 [0, - 1, 2, 1, 1] \<and>
   (\<exists>b. reorder [0, - 1, 2, 1, 1] [1, 2, 0] = Inr b \<and> reorder b [2, 0, 1] = Inr [0, - 1, 2, 1, 1] \<and>
        (\<forall>p<length [0, - 1, 2, 1, 1 :: int]. [0, - 1, 2, 1, 1 :: int] ! p = - 1 \<longrightarrow> b ! p = - 1))"
proof -
  have h1: "is_permutation [1, 2, 0]" by (simp add: is_permutation_def)
  have h2: "[1, 2, 0 :: int] \<noteq> []" by simp
  have h3: "labels_ok (length [1, 2, 0 :: int]) [0, - 1, 2, 1, 1]" by (simp add: labels_ok_def)
  have h4: "length [2, 0, 1 :: int] = length [1, 2, 0 :: int]" by simp
  have h5: "\<forall>i<length [1, 2, 0 :: int]. [2, 0, 1 :: int] ! nat ([1, 2, 0 :: int] ! i) = int i"
    by (simp add: less_Suc_eq numeral_3_eq_3)
  have h3': "labels_ok 3 [0, - 1, 2, 1, 1]" by (simp add: labels_ok_def)
  show ?thesis using h1 h3' reorder_roundtrip[OF h1 h2 h3 h4 h5] by blast
qed

section \<open>LabelAligner: ordering by the shallowest-level mean\<close>

text \<open>
  C7. For a three-class summary list whose shallowest-level means are \<open>[5, 1, 3]\<close>,
  \<^verbatim>\<open>temp_sort\<close> gives the permutation \<open>[1, 2, 0]\<close> and relabels the classes
  \<open>0, 1, 2\<close> to the ranks \<open>2, 0, 1\<close>, the sentinel staying \<open>-1\<close>. For a summary
  list whose shallowest-level means are already in ascending order, \<^verbatim>\<open>temp_sort\<close>
  returns the assignment unchanged.
\<close>

theorem temp_sort_ranks_and_noop:
  "(top_mean avg = Inr [5, 1, 3] \<and> labels_ok 3 data_classes \<longrightarrow>
      temp_sort data_classes avg True = Inr [1, 2, 0] \<and>
      temp_sort data_classes avg False =
        Inr (map (\<lambda>x. if x = 0 then 2 else if x = 1 then 0 else if x = 2 then 1 else - 1)
               data_classes)) \<and>
   (top_mean avg' = Inr tm \<and> tm \<noteq> [] \<and> sorted_wrt (<) tm \<and> labels_ok (length tm) data_classes' \<longrightarrow>
      temp_sort data_classes' avg' False = Inr data_classes')"
proof (intro conjI impI)
  assume h: "top_mean avg = Inr [5, 1, 3] \<and> labels_ok 3 data_classes"
  have as: "argsort [5, 1, 3] = [1, 2, 0]" by (simp add: argsort_def)
  show "temp_sort data_classes avg True = Inr [1, 2, 0]" using h as by (simp add: temp_sort_def)
  show "temp_sort data_classes avg False =
        Inr (map (\<lambda>x. if x = 0 then 2 else if x = 1 then 0 else if x = 2 then 1 else - 1)
               data_classes)"
    using h as reorder_120[of data_classes] by (simp add: temp_sort_def)
next
  assume h: "top_mean avg' = Inr tm \<and> tm \<noteq> [] \<and> sorted_wrt (<) tm \<and> labels_ok (length tm) data_classes'"
  then have "argsort tm = map int [0..<length tm]" using argsort_ascending by blast
  moreover have "reorder data_classes' (map int [0..<length tm]) = Inr data_classes'"
    using h reorder_identity[of "length tm" data_classes'] by simp
  ultimately show "temp_sort data_classes' avg' False = Inr data_classes'"
    using h by (simp add: temp_sort_def)
qed

text \<open>Both parts of the theorem on an assignment of five elements.\<close>

theorem temp_sort_ranks_and_noop_witness:
  "top_mean [\<lparr>mean = [5, 7], std = [1, 1]\<rparr>, \<lparr>mean = [1, 2], std = [1, 1]\<rparr>, \<lparr>mean = [3, 0], std = [1, 1]\<rparr>]
     = Inr [5, 1, 3] \<and>
   labels_ok 3 [0, 1, 2, - 1, 0] \<and>
   temp_sort [0, 1, 2, - 1, 0]
     [\<lparr>mean = [5, 7], std = [1, 1]\<rparr>, \<lparr>mean = [1, 2], std = [1, 1]\<rparr>, \<lparr>mean = [3, 0], std = [1, 1]\<rparr>] False
     = Inr [2, 0, 1, - 1, 2] \<and>
   top_mean [\<lparr>mean = [1, 2], std = [1, 1]\<rparr>, \<lparr>mean = [3, 0], std = [1, 1]\<rparr>, \<lparr>mean = [5, 7], std = [1, 1]\<rparr>]
     = Inr [1, 3, 5] \<and>
   sorted_wrt (<) [1, 3, 5 :: real] \<and>
   temp_sort [0, 1, 2, - 1, 0]
     [\<lparr>mean = [1, 2], std = [1, 1]\<rparr>, \<lparr>mean = [3, 0], std = [1, 1]\<rparr>, \<lparr>mean = [5, 7], std = [1, 1]\<rparr>] False
     = Inr [0, 1, 2, - 1, 0]"
proof -
  let ?A = "[\<lparr>mean = [5, 7], std = [1, 1]\<rparr>, \<lparr>mean = [1, 2], std = [1, 1]\<rparr>, \<lparr>mean = [3, 0], std = [1, 1::real]\<rparr>]"
  let ?B = "[\<lparr>mean = [1, 2], std = [1, 1]\<rparr>, \<lparr>mean = [3, 0], std = [1, 1]\<rparr>, \<lparr>mean = [5, 7], std = [1, 1::real]\<rparr>]"
  have h1: "top_mean ?A = Inr [5, 1, 3]" by simp
  have h2: "labels_ok 3 [0, 1, 2, - 1, 0]" by (simp add: labels_ok_def)
  have h3: "top_mean ?B = Inr [1, 3, 5]" by simp
  have h4: "sorted_wrt (<) [1, 3, 5 :: real]" by simp
  have h5: "labels_ok (length [1, 3, 5 :: real]) [0, 1, 2, - 1, 0]" by (simp add: labels_ok_def)
  have "temp_sort [0, 1, 2, - 1, 0] ?A False =
        Inr (map (\<lambda>x. if x = 0 then 2 else if x = 1 then 0 else if x = 2 then 1 else - 1)
               [0, 1, 2, - 1, 0 :: int])"
    using temp_sort_ranks_and_noop[of ?A "[0, 1, 2, - 1, 0]" ?B "[1, 3, 5]" "[0, 1, 2, - 1, 0]",
        THEN conjunct1, THEN mp, OF conjI[OF h1 h2], THEN conjunct2] .
  then have a: "temp_sort [0, 1, 2, - 1, 0] ?A False = Inr [2, 0, 1, - 1, 2]" by simp
  have b: "temp_sort [0, 1, 2, - 1, 0] ?B False = Inr [0, 1, 2, - 1, 0]"
    using temp_sort_ranks_and_noop[of ?A "[0, 1, 2, - 1, 0]" ?B "[1, 3, 5]" "[0, 1, 2, - 1, 0]",
        THEN conjunct2, THEN mp, OF conjI[OF h3 conjI[OF _ conjI[OF h4 h5]]]] by simp
  show ?thesis using h1 h2 h3 h4 a b by blast
qed

section \<open>LabelAligner: match\_profiles recovers a permutation\<close>

text \<open>
  C5 (amended). Let \<open>avg0\<close> and \<open>avg1\<close> be summary lists of equal length \<open>K \<ge> 1\<close>
  with mean profiles of one depth length, \<open>avg1\<close> being \<open>avg0\<close> permuted by \<open>perm\<close>
  (\<open>avg1[perm(i)]['mean'] = avg0[i]['mean']\<close>), and let no two mean profiles of
  \<open>avg0\<close> be at the same computed norm from any one profile of \<open>avg0\<close>, the norm
  being the float64 sum of squared differences that \<^verbatim>\<open>match_profiles\<close> computes. Then
  \<^verbatim>\<open>match_profiles(avg0, avg1)\<close> returns the array \<open>perm\<close>.
\<close>

theorem match_profiles_recovers_permutation:
  assumes K: "length avg0 = K" "length avg1 = K" "0 < K"
    and hperm: "sort perm = [0..<K]"
    and depth: "\<forall>s\<in>set avg0. length (mean s) = L"
    and permuted: "\<forall>i<K. mean (avg1 ! (perm ! i)) = mean (avg0 ! i)"
    and apart: "\<forall>i<K. \<forall>a<K. \<forall>b<K. a \<noteq> b \<longrightarrow>
                  computed_norm (mean (avg0 ! i)) (mean (avg0 ! a))
                    \<noteq> computed_norm (mean (avg0 ! i)) (mean (avg0 ! b))"
  shows "match_profiles avg0 avg1 None = Inr perm"
proof -
  have lperm: "length perm = K" using hperm by (metis length_sort length_upt diff_zero)
  have sperm: "set perm = {..<K}" using hperm by (metis set_sort set_upt atLeast0LessThan)
  have sur: "\<exists>i<K. perm ! i = j" if "j < K" for j
  proof -
    have "j \<in> set perm" using sperm that by simp
    then show ?thesis using lperm by (auto simp: in_set_conv_nth)
  qed
  have rng: "perm ! i < K" if "i < K" for i
  proof -
    have "perm ! i \<in> set perm" using that lperm by simp
    then show ?thesis using sperm by simp
  qed
  have d0: "length (mean (avg0 ! i)) = L" if "i < K" for i using depth K(1) that by simp
  have d1: "length (mean b) = L" if bin: "b \<in> set avg1" for b
  proof -
    obtain j where j: "j < K" "avg1 ! j = b" using bin K(2) by (auto simp: in_set_conv_nth)
    obtain i where i: "i < K" "perm ! i = j" using sur[OF j(1)] by blast
    show ?thesis using permuted i j d0[OF i(1)] by auto
  qed
  let ?row = "\<lambda>a. map (\<lambda>b. computed_norm (mean a) (mean b)) avg1"
  have rows: "\<forall>a\<in>set avg0. collect (map (\<lambda>b. norm_entry None a b) avg1) = Inr (?row a)"
  proof
    fix a assume "a \<in> set avg0"
    then have "length (mean a) = L" using depth by simp
    then have "\<forall>b\<in>set avg1. norm_entry None a b = Inr (computed_norm (mean a) (mean b))"
      using d1 by (simp add: norm_entry_computed)
    then show "collect (map (\<lambda>b. norm_entry None a b) avg1) = Inr (?row a)"
      by (rule collect_map_Inr)
  qed
  have norms: "collect (map (\<lambda>a. collect (map (\<lambda>b. norm_entry None a b) avg1)) avg0)
                 = Inr (map ?row avg0)"
    using rows by (rule collect_map_Inr)
  have am: "np_argmin (?row (avg0 ! i)) = Inr (perm ! i)" if i: "i < K" for i
  proof (rule np_argmin_unique)
    show "perm ! i < length (?row (avg0 ! i))" using rng[OF i] K(2) by simp
  next
    show "\<forall>k<length (?row (avg0 ! i)). k \<noteq> perm ! i \<longrightarrow>
            ?row (avg0 ! i) ! (perm ! i) < ?row (avg0 ! i) ! k"
    proof (intro allI impI)
      fix k assume k: "k < length (?row (avg0 ! i))" "k \<noteq> perm ! i"
      then have kK: "k < K" using K(2) by simp
      obtain i' where i': "i' < K" "perm ! i' = k" using sur[OF kK] by blast
      have ne: "i' \<noteq> i" using i' k(2) by auto
      have z: "?row (avg0 ! i) ! (perm ! i) = 0"
        using rng[OF i] K(2) permuted i by (simp add: computed_norm_self)
      have v: "?row (avg0 ! i) ! k = computed_norm (mean (avg0 ! i)) (mean (avg0 ! i'))"
        using kK K(2) permuted i' by auto
      have "computed_norm (mean (avg0 ! i)) (mean (avg0 ! i'))
              \<noteq> computed_norm (mean (avg0 ! i)) (mean (avg0 ! i))"
        using apart i i' ne by blast
      then have "computed_norm (mean (avg0 ! i)) (mean (avg0 ! i')) \<noteq> 0"
        by (simp add: computed_norm_self)
      then have "0 < computed_norm (mean (avg0 ! i)) (mean (avg0 ! i'))"
        using computed_norm_nonneg[of "mean (avg0 ! i)" "mean (avg0 ! i')"] by linarith
      then show "?row (avg0 ! i) ! (perm ! i) < ?row (avg0 ! i) ! k" using z v by simp
    qed
  qed
  have "map np_argmin (map ?row avg0) = map Inr perm"
  proof (rule nth_equalityI)
    show "length (map np_argmin (map ?row avg0)) = length (map Inr perm)" using K(1) lperm by simp
  next
    fix i assume "i < length (map np_argmin (map ?row avg0))"
    then have i: "i < K" using K(1) by simp
    then show "map np_argmin (map ?row avg0) ! i = map Inr perm ! i"
      using am[OF i] K(1) lperm by simp
  qed
  then have "collect (map np_argmin (map ?row avg0)) = Inr perm" by (simp only: collect_Inr)
  then show ?thesis using norms K by (simp add: match_profiles_def)
qed

text \<open>
  The claim as first stated, with distances taken as real numbers, fails where float64
  arithmetic makes two different distances equal. The profiles \<open>[0]\<close> and
  \<open>[2 ^ -1060]\<close> are at squared distance \<open>2 ^ -2120\<close>, which underflows to \<open>0\<close>:
  both rows of \<^verbatim>\<open>norms\<close> are \<open>[0, 0]\<close>, and \<^verbatim>\<open>np.argmin\<close> returns \<open>[0, 0]\<close>
  where the permutation is \<open>[1, 0]\<close>.
\<close>

theorem match_profiles_underflow_counterexample:
  "sort [1, 0 :: nat] = [0..<2] \<and>
   sq_dist [0] [0] \<noteq> sq_dist [0] [1 / 2 ^ 1060] \<and>
   sq_dist [1 / 2 ^ 1060] [0] \<noteq> sq_dist [1 / 2 ^ 1060] [1 / 2 ^ 1060] \<and>
   match_profiles
     [\<lparr>mean = [0], std = [1]\<rparr>, \<lparr>mean = [1 / 2 ^ 1060], std = [1]\<rparr>]
     [\<lparr>mean = [1 / 2 ^ 1060], std = [1]\<rparr>, \<lparr>mean = [0], std = [1]\<rparr>]
     None = Inr [0, 0] \<and>
   [0, 0] \<noteq> [1, 0 :: nat]"
proof -
  define u :: real where "u = 1 / 2 ^ 1060"
  have upos: "0 < u" by (simp add: u_def)
  have r1: "float64_round u = u"
    unfolding u_def by (simp add: float64_round_def ulp_def rne_def Let_def)
  have r2: "float64_round (- u) = - u"
    unfolding u_def by (simp add: float64_round_def ulp_def rne_def Let_def)
  have r3: "float64_round (u * u) = 0"
    unfolding u_def by (simp add: float64_round_def ulp_def rne_def Let_def)
  have a: "sort [1, 0 :: nat] = [0..<2]" by (simp add: upt_rec)
  have b: "sq_dist [0] [0] \<noteq> sq_dist [0] [u]" using upos by (simp add: sq_dist_def)
  have c: "sq_dist [u] [0] \<noteq> sq_dist [u] [u]" using upos by (simp add: sq_dist_def)
  have d: "match_profiles
     [\<lparr>mean = [0], std = [1]\<rparr>, \<lparr>mean = [u], std = [1]\<rparr>]
     [\<lparr>mean = [u], std = [1]\<rparr>, \<lparr>mean = [0], std = [1]\<rparr>]
     None = Inr [0, 0]"
    by (simp add: match_profiles_def norm_entry_def np_sub_def np_sum_def pairwise_sum_short fadd_def np_argmin_def
        r1 r2 r3 float64_round_zero)
  have e: "[0, 0] \<noteq> [1, 0 :: nat]" by simp
  show ?thesis using a b c d e unfolding u_def by blast
qed

text \<open>The theorem on three profiles at pairwise computed norms 1, 9 and 10.\<close>

theorem match_profiles_recovers_permutation_witness:
  "sort [2, 0, 1 :: nat] = [0..<3] \<and>
   match_profiles
     [\<lparr>mean = [0, 0], std = [1, 1]\<rparr>, \<lparr>mean = [1, 0], std = [1, 1]\<rparr>, \<lparr>mean = [0, 3], std = [1, 1]\<rparr>]
     [\<lparr>mean = [1, 0], std = [2, 2]\<rparr>, \<lparr>mean = [0, 3], std = [2, 2]\<rparr>, \<lparr>mean = [0, 0], std = [2, 2]\<rparr>]
     None = Inr [2, 0, 1]"
proof -
  let ?A = "[\<lparr>mean = [0, 0], std = [1, 1]\<rparr>, \<lparr>mean = [1, 0], std = [1, 1]\<rparr>, \<lparr>mean = [0, 3], std = [1, 1::real]\<rparr>]"
  let ?B = "[\<lparr>mean = [1, 0], std = [2, 2]\<rparr>, \<lparr>mean = [0, 3], std = [2, 2]\<rparr>, \<lparr>mean = [0, 0], std = [2, 2::real]\<rparr>]"
  have rd: "float64_round 1 = 1" "float64_round (- 1) = - 1" "float64_round 3 = 3"
    "float64_round (- 3) = - 3" "float64_round 9 = 9" "float64_round 10 = 10"
    using float64_round_int[of 1] float64_round_int[of "- 1"] float64_round_int[of 3]
      float64_round_int[of "- 3"] float64_round_int[of 9] float64_round_int[of 10]
    by simp_all
  have cn: "computed_norm [0, 0] [0, 0] = 0" "computed_norm [0, 0] [1, 0] = 1"
    "computed_norm [0, 0] [0, 3] = 9" "computed_norm [1, 0] [0, 0] = 1"
    "computed_norm [1, 0] [1, 0] = 0" "computed_norm [1, 0] [0, 3] = 10"
    "computed_norm [0, 3] [0, 0] = 9" "computed_norm [0, 3] [1, 0] = 10"
    "computed_norm [0, 3] [0, 3] = 0"
    by (simp_all add: computed_norm_def np_sum_def pairwise_sum_short fadd_def rd float64_round_zero)
  have h1: "length ?A = 3" "length ?B = 3" "(0::nat) < 3" by simp_all
  have h2: "sort [2, 0, 1 :: nat] = [0..<3]" by (simp add: upt_rec)
  have h3: "\<forall>s\<in>set ?A. length (mean s) = 2" by simp
  have h4: "\<forall>i<3. mean (?B ! ([2, 0, 1] ! i)) = mean (?A ! i)"
    by (simp add: less_Suc_eq numeral_3_eq_3)
  have h5: "\<forall>i<3. \<forall>a<3. \<forall>b<3. a \<noteq> b \<longrightarrow>
                  computed_norm (mean (?A ! i)) (mean (?A ! a))
                    \<noteq> computed_norm (mean (?A ! i)) (mean (?A ! b))"
    by (simp add: less_Suc_eq numeral_3_eq_3 cn)
  show ?thesis using h2 match_profiles_recovers_permutation[OF h1 h2 h3 h4 h5] by simp
qed

section \<open>Sampler: what random\_sample draws from\<close>

text \<open>
  C6 (amended). For every ProfileArray with at least one time slice, every \<open>N\<close> with
  \<open>1 \<le> N\<close> not exceeding the number of locations, and every state of the generator,
  \<^verbatim>\<open>random_sample\<close> returns \<open>N\<close> profiles for each time slice, taken at \<open>N\<close>
  distinct location indices of that slice drawn among all its locations, and arranged
  into one SampleArray of \<open>N * T\<close> rows (draw index first, time second). No location
  is filtered out: the draws are free of fully missing profiles when the input has no
  fully missing location.
\<close>

theorem random_sample_draws_from_all_locations:
  assumes ws: "well_shaped data" and T: "0 < time_size data"
    and N: "0 < N" "N \<le> n_size data"
  shows "\<exists>res idx. random_sample data N g = Inr res \<and>
           length res = N * time_size data \<and>
           length idx = time_size data \<and>
           (\<forall>t<time_size data.
              length (idx ! t) = N \<and> distinct (idx ! t) \<and>
              (\<forall>m<N. idx ! t ! m < n_size data \<and>
                 res ! (m * time_size data + t) = vals data ! t ! (idx ! t ! m))) \<and>
           ((\<forall>t<time_size data. \<forall>l<n_size data. \<not> fully_missing (vals data ! t ! l)) \<longrightarrow>
              (\<forall>row\<in>set res. \<not> fully_missing row))"
proof -
  let ?T = "time_size data"
  let ?n = "n_size data"
  let ?ix = "\<lambda>t. draw_indices [0..<?n] N (g t)"
  let ?pick = "\<lambda>t. map (\<lambda>i. vals data ! t ! i) (?ix t)"
  have lp: "length (vals data ! t) = ?n" if "t < ?T" for t
    using ws that by (simp add: well_shaped_def list_all_length)
  have ix: "length (?ix t) = N \<and> distinct (?ix t) \<and> set (?ix t) \<subseteq> set [0..<?n]" for t
    using draw_indices_spec[of "[0..<?n]" N "g t"] N(2) by simp
  have "\<forall>t\<in>set [0..<?T]. rng_choice (g t) (vals data ! t) N = Inr (?pick t)"
    using lp N(2) by (simp add: rng_choice_def)
  then have col: "collect (map (\<lambda>t. rng_choice (g t) (vals data ! t) N) [0..<?T])
                    = Inr (map ?pick [0..<?T])"
    by (rule collect_map_Inr)
  let ?result = "map ?pick [0..<?T]"
  let ?xss = "map (\<lambda>m. map (\<lambda>t. ?result ! t ! m) [0..<?T]) [0..<N]"
  let ?res = "concat ?xss"
  let ?idx = "map ?ix [0..<?T]"
  have rs: "random_sample data N g = Inr ?res" using col T by (simp add: random_sample_def)
  have u: "\<forall>xs\<in>set ?xss. length xs = ?T" by simp
  have len: "length ?res = N * ?T" using length_concat_uniform[OF u] by simp
  have pick: "?result ! t ! m = vals data ! t ! (?ix t ! m)" if "t < ?T" "m < N" for t m
    using that ix[of t] by simp
  have at: "length (?idx ! t) = N \<and> distinct (?idx ! t) \<and>
              (\<forall>m<N. ?idx ! t ! m < ?n \<and>
                 ?res ! (m * ?T + t) = vals data ! t ! (?idx ! t ! m))" if t: "t < ?T" for t
  proof -
    have it: "?idx ! t = ?ix t" using t by simp
    have "?ix t ! m < ?n \<and> ?res ! (m * ?T + t) = vals data ! t ! (?ix t ! m)"
      if m: "m < N" for m
    proof -
      have "?ix t ! m \<in> set (?ix t)" using m ix[of t] by simp
      then have a: "?ix t ! m < ?n" using ix[of t] by auto
      have "?res ! (m * ?T + t) = ?xss ! m ! t" using nth_concat_uniform[OF u _ t, of m] m by simp
      also have "\<dots> = ?result ! t ! m" using m t by simp
      finally show ?thesis using a pick[OF t m] by simp
    qed
    then show ?thesis unfolding it using ix[of t] by blast
  qed
  have valid: "\<forall>row\<in>set ?res. \<not> fully_missing row"
    if all: "\<forall>t<?T. \<forall>l<?n. \<not> fully_missing (vals data ! t ! l)"
  proof
    fix row assume "row \<in> set ?res"
    then obtain m t where mt: "m < N" "t < ?T" "row = ?result ! t ! m" by auto
    have "?ix t ! m \<in> set (?ix t)" using mt(1) ix[of t] by simp
    then have "?ix t ! m < ?n" using ix[of t] by auto
    then show "\<not> fully_missing row" using all mt pick[OF mt(2) mt(1)] by simp
  qed
  have li: "length ?idx = ?T" by simp
  show ?thesis using rs len li at valid by blast
qed

text \<open>
  The claim as first stated (no fully missing profile among the draws, for \<open>N\<close> up to
  the number of valid locations) fails: with one valid and one fully missing location
  and \<open>N = 1\<close>, a generator whose first raw number is 0 picks location 0, and the
  sample is the missing profile.
\<close>

theorem random_sample_missing_draw_counterexample:
  "well_shaped \<lparr>time_size = 1, n_size = 2, core_size = 1, vals = [[[NaN], [Fin 1]]], layout = Dask_chunks\<rparr> \<and>
   1 \<le> valid_count [[NaN], [Fin 1]] \<and>
   random_sample \<lparr>time_size = 1, n_size = 2, core_size = 1, vals = [[[NaN], [Fin 1]]], layout = Dask_chunks\<rparr>
     1 (\<lambda>t k. 0) = Inr [[NaN]] \<and>
   fully_missing [NaN]"
  by (simp add: well_shaped_def valid_count_def fully_missing_def random_sample_def rng_choice_def
      upt_rec)

text \<open>The theorem on two time slices of three locations, two draws per slice.\<close>

theorem random_sample_draws_from_all_locations_witness:
  "well_shaped \<lparr>time_size = 2, n_size = 3, core_size = 1,
      vals = [[[Fin 1], [Fin 2], [Fin 3]], [[Fin 4], [Fin 5], [Fin 6]]], layout = Dask_chunks\<rparr> \<and>
   random_sample \<lparr>time_size = 2, n_size = 3, core_size = 1,
      vals = [[[Fin 1], [Fin 2], [Fin 3]], [[Fin 4], [Fin 5], [Fin 6]]], layout = Dask_chunks\<rparr>
     2 (\<lambda>t k. if t = 0 then 2 else 1) = Inr [[Fin 3], [Fin 5], [Fin 1], [Fin 6]] \<and>
   (\<exists>res. random_sample \<lparr>time_size = 2, n_size = 3, core_size = 1,
      vals = [[[Fin 1], [Fin 2], [Fin 3]], [[Fin 4], [Fin 5], [Fin 6]]], layout = Dask_chunks\<rparr>
     2 (\<lambda>t k. if t = 0 then 2 else 1) = Inr res \<and>
     length res = 4 \<and> (\<forall>row\<in>set res. \<not> fully_missing row))"
proof -
  let ?D = "\<lparr>time_size = 2, n_size = 3, core_size = 1,
      vals = [[[Fin 1], [Fin 2], [Fin 3]], [[Fin 4], [Fin 5], [Fin 6]]], layout = Dask_chunks\<rparr>"
  let ?g = "\<lambda>(t::nat) (k::nat). if t = 0 then 2 else (1::nat)"
  have h1: "well_shaped ?D" by (simp add: well_shaped_def)
  have h2: "0 < time_size ?D" by simp
  have h3: "(0::nat) < 2" "2 \<le> n_size ?D" by simp_all
  have ev: "random_sample ?D 2 ?g = Inr [[Fin 3], [Fin 5], [Fin 1], [Fin 6]]"
    by (simp add: random_sample_def rng_choice_def upt_rec numeral_2_eq_2)
  have nm: "\<forall>t<time_size ?D. \<forall>l<n_size ?D. \<not> fully_missing (vals ?D ! t ! l)"
    by (simp add: fully_missing_def less_Suc_eq numeral_2_eq_2 numeral_3_eq_3)
  obtain res where r: "random_sample ?D 2 ?g = Inr res" "length res = 2 * time_size ?D"
    "(\<forall>t<time_size ?D. \<forall>l<n_size ?D. \<not> fully_missing (vals ?D ! t ! l)) \<longrightarrow>
              (\<forall>row\<in>set res. \<not> fully_missing row)"
    using random_sample_draws_from_all_locations[OF h1 h2 h3, of ?g] by blast
  have l: "length res = 4" using r(2) by simp
  have v: "\<forall>row\<in>set res. \<not> fully_missing row" using r(3) nm by blast
  show ?thesis using h1 ev r(1) l v by blast
qed

section \<open>Aggregator: count\_area and mean\_lat\<close>

text \<open>
  C4. On four locations at latitude 0 split evenly over two classes, the loop of
  \<^verbatim>\<open>func\<close> would store \<open>N / K = 2\<close> for each class, as the claim says, but
  \<^verbatim>\<open>count_area\<close> itself does not return it: the call raises \<^verbatim>\<open>NameError\<close>.
\<close>

theorem count_area_raises_NameError:
  "count_area_func_out (map (\<lambda>l. cos (l * pi / 180)) [0, 0, 0, 0]) 2 [0, 1, 0, 1] = [2, 2] \<and>
   count_area \<lparr>lat = [0, 0, 0, 0], classes = [[0, 1, 0, 1]]\<rparr> 2 = Inl (NameError ''out'')"
  by (simp add: count_area_func_out_def count_area_def upt_rec)

text \<open>
  C9. On four locations at latitudes \<open>-60, -40, -50, -30\<close> with classes
  \<open>0, 0, 1, 1\<close>, the mean latitude of class 0 is \<open>-50\<close> and that of class 1 is
  \<open>-40\<close>. \<^verbatim>\<open>mean_lat\<close> raises \<^verbatim>\<open>NameError\<close>, and the loop of its \<^verbatim>\<open>func\<close>
  would store \<open>-25\<close> and \<open>-20\<close>, the sums divided by the number of all locations.
\<close>

theorem mean_lat_raises_NameError:
  "mean_lat_func_out [- 60, - 40, - 50, - 30] 2 [0, 0, 1, 1] = [- 25, - 20] \<and>
   mean_lat \<lparr>lat = [- 60, - 40, - 50, - 30], classes = [[0, 0, 1, 1]]\<rparr> 2 = Inl (NameError ''out'')"
  by (simp add: mean_lat_func_out_def mean_lat_def upt_rec)

end
